theory Spec2Isabelle
  imports Main "HOL-Library.Word" "HOL-Library.AList"
begin

unbundle bit_operations_syntax

section \<open>Python values\<close>

text \<open>
  A Python \<open>str\<close> is a sequence of Unicode code points and a \<open>bytes\<close> object a sequence
  of integers below 256; both are lists of natural numbers here.  \<open>str\<close> turns an
  Isabelle literal into the Python string with the same (ASCII) characters.
\<close>

type_synonym ustr = "nat list"
type_synonym bytes = "nat list"

definition str :: "string \<Rightarrow> ustr" where
  "str s = map of_char s"

abbreviation ch :: "char \<Rightarrow> nat" where
  "ch c \<equiv> of_char c"

datatype codec = UTF8 | Latin1

datatype error =
    ValueError                \<comment> \<open>raised by \<open>urllib.parse.urlsplit\<close>\<close>
  | UnicodeEncodeError codec  \<comment> \<open>raised by \<open>str.encode\<close> and by the text file's encoder\<close>
  | RequestException          \<comment> \<open>anything \<open>requests.get\<close> raises\<close>

subsection \<open>String methods\<close>

definition startswith :: "ustr \<Rightarrow> ustr \<Rightarrow> bool" where
  "startswith s p = (take (length p) s = p)"

definition endswith :: "ustr \<Rightarrow> ustr \<Rightarrow> bool" where
  "endswith s p = (length p \<le> length s \<and> drop (length s - length p) s = p)"

text \<open>\<open>s.split(c)\<close> for a one-character separator: never the empty list.\<close>

fun split :: "nat \<Rightarrow> ustr \<Rightarrow> ustr list" where
  "split c [] = [[]]"
| "split c (x # xs) =
     (if x = c then [] # split c xs
      else (case split c xs of [] \<Rightarrow> [[x]] | p # ps \<Rightarrow> (x # p) # ps))"

fun join :: "ustr \<Rightarrow> ustr list \<Rightarrow> ustr" where
  "join sep [] = []"
| "join sep [x] = x"
| "join sep (x # y # ys) = x @ sep @ join sep (y # ys)"

text \<open>
  \<open>s.split(c, 1)\<close> when \<open>c\<close> occurs in \<open>s\<close>, and \<open>s.partition(c)\<close> without its middle:
  the text before the first \<open>c\<close> and the text after it.
\<close>

definition split1 :: "nat \<Rightarrow> ustr \<Rightarrow> ustr \<times> ustr" where
  "split1 c s = (takeWhile (\<lambda>x. x \<noteq> c) s, drop 1 (dropWhile (\<lambda>x. x \<noteq> c) s))"

text \<open>The characters \<open>str.isspace\<close> accepts; \<open>str.strip()\<close> removes them at both ends.\<close>

definition isspace :: "nat \<Rightarrow> bool" where
  "isspace c = ((9 \<le> c \<and> c \<le> 13) \<or> (28 \<le> c \<and> c \<le> 32) \<or> c = 0x85 \<or> c = 0xA0
     \<or> c = 0x1680 \<or> (0x2000 \<le> c \<and> c \<le> 0x200A) \<or> c = 0x2028 \<or> c = 0x2029
     \<or> c = 0x202F \<or> c = 0x205F \<or> c = 0x3000)"

definition strip :: "ustr \<Rightarrow> ustr" where
  "strip s = rev (dropWhile isspace (rev (dropWhile isspace s)))"

text \<open>
  \<open>str.lower\<close> on the ASCII letters.  The only other code points whose lower-case form
  holds an ASCII letter are U+0130 (i with a combining dot after it) and U+212A (k), so
  the tests \<open>lower().endswith("url")\<close> and \<open>lower().endswith("urls")\<close> of the program
  give the same answer with this function as with Python's.
\<close>

definition lower_char :: "nat \<Rightarrow> nat" where
  "lower_char c = (if 65 \<le> c \<and> c \<le> 90 then c + 32 else c)"

definition lower :: "ustr \<Rightarrow> ustr" where
  "lower s = map lower_char s"

subsection \<open>UTF-8\<close>

text \<open>
  \<open>s.encode()\<close>: UTF-8, which refuses the surrogates U+D800 to U+DFFF (and nothing else that
  a Python string can hold).
\<close>

definition utf8_char :: "nat \<Rightarrow> bytes" where
  "utf8_char c =
     (if c < 0x80 then [c]
      else if c < 0x800 then [0xC0 + c div 64, 0x80 + c mod 64]
      else if c < 0x10000 then [0xE0 + c div 4096, 0x80 + c div 64 mod 64, 0x80 + c mod 64]
      else [0xF0 + c div 262144, 0x80 + c div 4096 mod 64, 0x80 + c div 64 mod 64,
            0x80 + c mod 64])"

definition surrogate :: "nat \<Rightarrow> bool" where
  "surrogate c = (0xD800 \<le> c \<and> c \<le> 0xDFFF)"

definition encode :: "ustr \<Rightarrow> error + bytes" where
  "encode s = (if list_ex surrogate s then Inl (UnicodeEncodeError UTF8)
               else Inr (concat (map utf8_char s)))"

text \<open>
  \<open>b.decode('utf-8', 'replace')\<close>.  CPython replaces by one U+FFFD: a byte that cannot
  start a sequence; the start of a sequence up to (not including) the first byte that
  cannot continue it; and a sequence cut off by the end of the input.
\<close>

definition cont :: "nat \<Rightarrow> bool" where
  "cont b = (0x80 \<le> b \<and> b < 0xC0)"

fun decode_replace :: "bytes \<Rightarrow> ustr" where
  "decode_replace [] = []"
| "decode_replace (b # bs) =
     (if b < 0x80 then b # decode_replace bs
      else if b < 0xC2 then 0xFFFD # decode_replace bs
      else if b < 0xE0 then
        (case bs of
           [] \<Rightarrow> [0xFFFD]
         | b1 # bs1 \<Rightarrow>
             if cont b1 then ((b - 0xC0) * 64 + (b1 - 0x80)) # decode_replace bs1
             else 0xFFFD # decode_replace bs)
      else if b < 0xF0 then
        (case bs of
           [] \<Rightarrow> [0xFFFD]
         | b1 # bs1 \<Rightarrow>
             if \<not> cont b1 \<or> (b = 0xE0 \<and> b1 < 0xA0) \<or> (b = 0xED \<and> 0xA0 \<le> b1)
             then 0xFFFD # decode_replace bs
             else (case bs1 of
                     [] \<Rightarrow> [0xFFFD]
                   | b2 # bs2 \<Rightarrow>
                       if cont b2
                       then ((b - 0xE0) * 4096 + (b1 - 0x80) * 64 + (b2 - 0x80))
                              # decode_replace bs2
                       else 0xFFFD # decode_replace bs1))
      else if b < 0xF5 then
        (case bs of
           [] \<Rightarrow> [0xFFFD]
         | b1 # bs1 \<Rightarrow>
             if \<not> cont b1 \<or> (b = 0xF0 \<and> b1 < 0x90) \<or> (b = 0xF4 \<and> 0x90 \<le> b1)
             then 0xFFFD # decode_replace bs
             else (case bs1 of
                     [] \<Rightarrow> [0xFFFD]
                   | b2 # bs2 \<Rightarrow>
                       if \<not> cont b2 then 0xFFFD # decode_replace bs1
                       else (case bs2 of
                               [] \<Rightarrow> [0xFFFD]
                             | b3 # bs3 \<Rightarrow>
                                 if cont b3
                                 then ((b - 0xF0) * 262144 + (b1 - 0x80) * 4096
                                        + (b2 - 0x80) * 64 + (b3 - 0x80))
                                        # decode_replace bs3
                                 else 0xFFFD # decode_replace bs2)))
      else 0xFFFD # decode_replace bs)"

section \<open>\<open>urllib.parse\<close> (CPython 3.11)\<close>

subsection \<open>\<open>unquote\<close>\<close>

definition hexdig :: "nat \<Rightarrow> nat option" where
  "hexdig c =
     (if 48 \<le> c \<and> c \<le> 57 then Some (c - 48)
      else if 65 \<le> c \<and> c \<le> 70 then Some (c - 55)
      else if 97 \<le> c \<and> c \<le> 102 then Some (c - 87)
      else None)"

text \<open>One item of \<open>string.split(b'%')[1:]\<close>: two hex digits become a byte, anything
  else gets its \<open>%\<close> back.\<close>

fun unquote_item :: "bytes \<Rightarrow> bytes" where
  "unquote_item (a # b # rest) =
     (case (hexdig a, hexdig b) of
        (Some h, Some l) \<Rightarrow> (16 * h + l) # rest
      | _ \<Rightarrow> ch CHR ''%'' # a # b # rest)"
| "unquote_item item = ch CHR ''%'' # item"

definition unquote_to_bytes :: "bytes \<Rightarrow> bytes" where
  "unquote_to_bytes string =
     (case split (ch CHR ''%'') string of
        [] \<Rightarrow> string
      | b0 # items \<Rightarrow> b0 @ concat (map unquote_item items))"

text \<open>\<open>_asciire.split\<close>: the maximal runs of ASCII and of non-ASCII characters.\<close>

fun runs :: "ustr \<Rightarrow> (bool \<times> ustr) list" where
  "runs [] = []"
| "runs (c # cs) =
     (case runs cs of
        [] \<Rightarrow> [(c < 128, [c])]
      | (a, r) # rs \<Rightarrow>
          if a = (c < 128) then (a, c # r) # rs else (c < 128, [c]) # (a, r) # rs)"

definition unquote :: "ustr \<Rightarrow> ustr" where
  "unquote string =
     (if ch CHR ''%'' \<notin> set string then string
      else concat (map (\<lambda>(ascii, r). if ascii then decode_replace (unquote_to_bytes r) else r)
                       (runs string)))"

subsection \<open>\<open>urlsplit\<close> and \<open>urlparse\<close>\<close>

text \<open>
  Two checks of \<open>urlsplit\<close> rest on Python libraries that are not modelled
  (\<open>ipaddress\<close> and \<open>unicodedata\<close>); what they answer is a parameter:
  \<open>check_bracketed_host h\<close> holds when \<open>_check_bracketed_host(h)\<close> returns without
  raising, \<open>checknetloc n\<close> when \<open>_checknetloc(n)\<close> does, for a non-empty netloc \<open>n\<close> that
  is not ASCII (for the others \<open>_checknetloc\<close> returns at once).
\<close>

record pylib =
  check_bracketed_host :: "ustr \<Rightarrow> bool"
  checknetloc :: "ustr \<Rightarrow> bool"

record SplitResult =
  scheme :: ustr
  netloc :: ustr
  path :: ustr
  query :: ustr
  fragment :: ustr

definition uses_relative :: "ustr list" where
  "uses_relative = map str ['''', ''ftp'', ''http'', ''gopher'', ''nntp'', ''imap'',
     ''wais'', ''file'', ''https'', ''shttp'', ''mms'', ''prospero'', ''rtsp'', ''rtsps'',
     ''rtspu'', ''sftp'', ''svn'', ''svn+ssh'', ''ws'', ''wss'']"

definition uses_netloc :: "ustr list" where
  "uses_netloc = map str ['''', ''ftp'', ''http'', ''gopher'', ''nntp'', ''telnet'',
     ''imap'', ''wais'', ''file'', ''mms'', ''https'', ''shttp'', ''snews'', ''prospero'',
     ''rtsp'', ''rtsps'', ''rtspu'', ''rsync'', ''svn'', ''svn+ssh'', ''sftp'', ''nfs'',
     ''git'', ''git+ssh'', ''ws'', ''wss'']"

definition uses_params :: "ustr list" where
  "uses_params = map str ['''', ''ftp'', ''hdl'', ''prospero'', ''http'', ''imap'',
     ''https'', ''shttp'', ''rtsp'', ''rtsps'', ''rtspu'', ''sip'', ''sips'', ''mms'',
     ''sftp'', ''tel'']"

definition scheme_chars :: "nat \<Rightarrow> bool" where
  "scheme_chars c = ((97 \<le> c \<and> c \<le> 122) \<or> (65 \<le> c \<and> c \<le> 90) \<or> (48 \<le> c \<and> c \<le> 57)
     \<or> c = ch CHR ''+'' \<or> c = ch CHR ''-'' \<or> c = ch CHR ''.'')"

definition ascii_alpha :: "nat \<Rightarrow> bool" where
  "ascii_alpha c = ((97 \<le> c \<and> c \<le> 122) \<or> (65 \<le> c \<and> c \<le> 90))"

definition WHATWG_C0_CONTROL_OR_SPACE :: "nat \<Rightarrow> bool" where
  "WHATWG_C0_CONTROL_OR_SPACE c = (c \<le> 0x20)"

definition UNSAFE_URL_BYTES_TO_REMOVE :: "nat \<Rightarrow> bool" where
  "UNSAFE_URL_BYTES_TO_REMOVE c = (c = 9 \<or> c = 13 \<or> c = 10)"

text \<open>\<open>_splitnetloc(url, 2)\<close>: the netloc ends before the first of \<open>/\<close>, \<open>?\<close>, \<open>#\<close>.\<close>

definition netloc_delim :: "nat \<Rightarrow> bool" where
  "netloc_delim c = (c = ch CHR ''/'' \<or> c = ch CHR ''?'' \<or> c = ch CHR ''#'')"

definition splitnetloc :: "ustr \<Rightarrow> ustr \<times> ustr" where
  "splitnetloc url =
     (takeWhile (\<lambda>c. \<not> netloc_delim c) (drop 2 url),
      dropWhile (\<lambda>c. \<not> netloc_delim c) (drop 2 url))"

text \<open>The scheme, when the text before the first colon is one; else the default.\<close>

definition split_scheme :: "ustr \<Rightarrow> ustr \<Rightarrow> ustr \<times> ustr" where
  "split_scheme dflt url =
     (let pre = takeWhile (\<lambda>c. c \<noteq> ch CHR '':'') url
      in if ch CHR '':'' \<in> set url \<and> pre \<noteq> [] \<and> ascii_alpha (hd pre) \<and> list_all scheme_chars pre
         then (lower pre, drop (Suc (length pre)) url)
         else (dflt, url))"

definition urlsplit :: "pylib \<Rightarrow> ustr \<Rightarrow> ustr \<Rightarrow> error + SplitResult" where
  "urlsplit lib url0 scheme0 =
     (let url1 = filter (\<lambda>c. \<not> UNSAFE_URL_BYTES_TO_REMOVE c)
                   (dropWhile WHATWG_C0_CONTROL_OR_SPACE url0);
          scheme1 = filter (\<lambda>c. \<not> UNSAFE_URL_BYTES_TO_REMOVE c)
                      (rev (dropWhile WHATWG_C0_CONTROL_OR_SPACE
                         (rev (dropWhile WHATWG_C0_CONTROL_OR_SPACE scheme0))));
          (scheme2, url2) = split_scheme scheme1 url1;
          (netloc2, url3) = (if take 2 url2 = str ''//'' then splitnetloc url2 else ([], url2));
          lb = (ch CHR ''['' \<in> set netloc2);
          rb = (ch CHR '']'' \<in> set netloc2)
      in if lb \<noteq> rb then Inl ValueError
         else if lb \<and> rb \<and> \<not> check_bracketed_host lib
                   (fst (split1 (ch CHR '']'') (snd (split1 (ch CHR ''['') netloc2))))
         then Inl ValueError
         else
           let (url4, fragment4) =
                 (if ch CHR ''#'' \<in> set url3 then split1 (ch CHR ''#'') url3 else (url3, []));
               (url5, query5) =
                 (if ch CHR ''?'' \<in> set url4 then split1 (ch CHR ''?'') url4 else (url4, []))
           in if netloc2 \<noteq> [] \<and> list_ex (\<lambda>c. 128 \<le> c) netloc2 \<and> \<not> checknetloc lib netloc2
              then Inl ValueError
              else Inr \<lparr>scheme = scheme2, netloc = netloc2, path = url5, query = query5,
                        fragment = fragment4\<rparr>)"

text \<open>\<open>s.rfind(c)\<close>: the last index of \<open>c\<close>, or -1.\<close>

definition rfind :: "nat \<Rightarrow> ustr \<Rightarrow> int" where
  "rfind c s =
     (if c \<in> set s then int (length s) - 1 - int (length (takeWhile (\<lambda>x. x \<noteq> c) (rev s)))
      else - 1)"

definition splitparams :: "ustr \<Rightarrow> ustr \<times> ustr" where
  "splitparams url =
     (if ch CHR ''/'' \<in> set url then
        (let k = nat (rfind (ch CHR ''/'') url)
         in if ch CHR '';'' \<in> set (drop k url)
            then (take k url @ fst (split1 (ch CHR '';'') (drop k url)),
                  snd (split1 (ch CHR '';'') (drop k url)))
            else (url, []))
      else split1 (ch CHR '';'') url)"

text \<open>\<open>urlparse\<close> returns scheme, netloc, path, params, query and fragment.\<close>

type_synonym ParseResult = "ustr \<times> ustr \<times> ustr \<times> ustr \<times> ustr \<times> ustr"

definition urlparse :: "pylib \<Rightarrow> ustr \<Rightarrow> ustr \<Rightarrow> error + ParseResult" where
  "urlparse lib url scheme0 =
     (case urlsplit lib url scheme0 of
        Inl e \<Rightarrow> Inl e
      | Inr r \<Rightarrow>
          if scheme r \<in> set uses_params \<and> ch CHR '';'' \<in> set (path r)
          then (let (u, params) = splitparams (path r)
                in Inr (scheme r, netloc r, u, params, query r, fragment r))
          else Inr (scheme r, netloc r, path r, [], query r, fragment r))"

subsection \<open>\<open>urlunsplit\<close>, \<open>urlunparse\<close> and \<open>urljoin\<close>\<close>

definition urlunsplit :: "ustr \<times> ustr \<times> ustr \<times> ustr \<times> ustr \<Rightarrow> ustr" where
  "urlunsplit = (\<lambda>(scheme0, netloc0, url0, query0, fragment0).
     let url1 = (if netloc0 \<noteq> [] \<or> (scheme0 \<noteq> [] \<and> scheme0 \<in> set uses_netloc)
                      \<or> take 2 url0 = str ''//''
                 then str ''//'' @ netloc0
                        @ (if url0 \<noteq> [] \<and> take 1 url0 \<noteq> str ''/'' then str ''/'' @ url0 else url0)
                 else url0);
         url2 = (if scheme0 \<noteq> [] then scheme0 @ str '':'' @ url1 else url1);
         url3 = (if query0 \<noteq> [] then url2 @ str ''?'' @ query0 else url2)
     in if fragment0 \<noteq> [] then url3 @ str ''#'' @ fragment0 else url3)"

definition urlunparse :: "ParseResult \<Rightarrow> ustr" where
  "urlunparse = (\<lambda>(scheme0, netloc0, url0, params0, query0, fragment0).
     urlunsplit (scheme0, netloc0,
                 (if params0 \<noteq> [] then url0 @ str '';'' @ params0 else url0),
                 query0, fragment0))"

text \<open>The loop of \<open>urljoin\<close> over the segments: \<open>..\<close> pops (if it can), \<open>.\<close> is skipped.\<close>

fun resolve_segments :: "ustr list \<Rightarrow> ustr list \<Rightarrow> ustr list" where
  "resolve_segments resolved_path [] = resolved_path"
| "resolve_segments resolved_path (seg # segs) =
     (if seg = str ''..'' then resolve_segments (butlast resolved_path) segs
      else if seg = str ''.'' then resolve_segments resolved_path segs
      else resolve_segments (resolved_path @ [seg]) segs)"

text \<open>\<open>segments[1:-1] = filter(None, segments[1:-1])\<close>\<close>

definition filter_inner :: "ustr list \<Rightarrow> ustr list" where
  "filter_inner segments =
     (case segments of
        [] \<Rightarrow> []
      | [s] \<Rightarrow> [s]
      | s # rest \<Rightarrow> s # filter (\<lambda>x. x \<noteq> []) (butlast rest) @ [last rest])"

definition join_paths :: "ustr \<Rightarrow> ustr \<Rightarrow> ustr" where
  "join_paths bpath path0 =
     (let base_parts0 = split (ch CHR ''/'') bpath;
          base_parts = (if last base_parts0 \<noteq> [] then butlast base_parts0 else base_parts0);
          segments = (if take 1 path0 = str ''/'' then split (ch CHR ''/'') path0
                      else filter_inner (base_parts @ split (ch CHR ''/'') path0));
          resolved0 = resolve_segments [] segments;
          resolved_path = (if last segments = str ''.'' \<or> last segments = str ''..''
                           then resolved0 @ [[]] else resolved0);
          joined = join (str ''/'') resolved_path
      in if joined = [] then str ''/'' else joined)"

definition urljoin :: "pylib \<Rightarrow> ustr \<Rightarrow> ustr \<Rightarrow> error + ustr" where
  "urljoin lib base url =
     (if base = [] then Inr url
      else if url = [] then Inr base
      else
        case urlparse lib base [] of
          Inl e \<Rightarrow> Inl e
        | Inr (bscheme, bnetloc, bpath, bparams, bquery, bfragment) \<Rightarrow>
        case urlparse lib url bscheme of
          Inl e \<Rightarrow> Inl e
        | Inr (scheme0, netloc0, path0, params0, query0, fragment0) \<Rightarrow>
            if scheme0 \<noteq> bscheme \<or> scheme0 \<notin> set uses_relative then Inr url
            else if scheme0 \<in> set uses_netloc \<and> netloc0 \<noteq> []
            then Inr (urlunparse (scheme0, netloc0, path0, params0, query0, fragment0))
            else
              let netloc1 = (if scheme0 \<in> set uses_netloc then bnetloc else netloc0)
              in if path0 = [] \<and> params0 = []
                 then Inr (urlunparse (scheme0, netloc1, bpath, bparams,
                             (if query0 = [] then bquery else query0), fragment0))
                 else Inr (urlunparse (scheme0, netloc1, join_paths bpath path0,
                             params0, query0, fragment0)))"

section \<open>\<open>os.path\<close> (POSIX)\<close>

definition splitext :: "ustr \<Rightarrow> ustr \<times> ustr" where
  "splitext p =
     (let sepIndex = rfind (ch CHR ''/'') p;
          dotIndex = rfind (ch CHR ''.'') p
      in if dotIndex > sepIndex
            \<and> list_ex (\<lambda>c. c \<noteq> ch CHR ''.'')
                 (take (nat (dotIndex - (sepIndex + 1))) (drop (nat (sepIndex + 1)) p))
         then (take (nat dotIndex) p, drop (nat dotIndex) p)
         else (p, []))"

text \<open>\<open>os.path.join(a, b)\<close>\<close>

definition os_path_join :: "ustr \<Rightarrow> ustr \<Rightarrow> ustr" where
  "os_path_join a b =
     (if startswith b (str ''/'') then b
      else if a = [] \<or> endswith a (str ''/'') then a @ b
      else a @ str ''/'' @ b)"

section \<open>\<open>hashlib.md5\<close>\<close>

text \<open>MD5 (RFC 1321) on 32-bit words; the message is a list of bytes.\<close>

type_synonym word32 = "32 word"

definition md5_K :: "word32 list" where
  "md5_K =
    [0xd76aa478, 0xe8c7b756, 0x242070db, 0xc1bdceee,
     0xf57c0faf, 0x4787c62a, 0xa8304613, 0xfd469501,
     0x698098d8, 0x8b44f7af, 0xffff5bb1, 0x895cd7be,
     0x6b901122, 0xfd987193, 0xa679438e, 0x49b40821,
     0xf61e2562, 0xc040b340, 0x265e5a51, 0xe9b6c7aa,
     0xd62f105d, 0x02441453, 0xd8a1e681, 0xe7d3fbc8,
     0x21e1cde6, 0xc33707d6, 0xf4d50d87, 0x455a14ed,
     0xa9e3e905, 0xfcefa3f8, 0x676f02d9, 0x8d2a4c8a,
     0xfffa3942, 0x8771f681, 0x6d9d6122, 0xfde5380c,
     0xa4beea44, 0x4bdecfa9, 0xf6bb4b60, 0xbebfbc70,
     0x289b7ec6, 0xeaa127fa, 0xd4ef3085, 0x04881d05,
     0xd9d4d039, 0xe6db99e5, 0x1fa27cf8, 0xc4ac5665,
     0xf4292244, 0x432aff97, 0xab9423a7, 0xfc93a039,
     0x655b59c3, 0x8f0ccc92, 0xffeff47d, 0x85845dd1,
     0x6fa87e4f, 0xfe2ce6e0, 0xa3014314, 0x4e0811a1,
     0xf7537e82, 0xbd3af235, 0x2ad7d2bb, 0xeb86d391]"

definition md5_s :: "nat list" where
  "md5_s = [7, 12, 17, 22, 7, 12, 17, 22, 7, 12, 17, 22, 7, 12, 17, 22,
            5, 9, 14, 20, 5, 9, 14, 20, 5, 9, 14, 20, 5, 9, 14, 20,
            4, 11, 16, 23, 4, 11, 16, 23, 4, 11, 16, 23, 4, 11, 16, 23,
            6, 10, 15, 21, 6, 10, 15, 21, 6, 10, 15, 21, 6, 10, 15, 21]"

definition rotl :: "nat \<Rightarrow> word32 \<Rightarrow> word32" where
  "rotl n w = push_bit n w OR drop_bit (32 - n) w"

text \<open>The message, a 1 bit, zeros up to 56 modulo 64, and the bit length in 8 bytes,
  least significant first.\<close>

definition md5_pad :: "bytes \<Rightarrow> bytes" where
  "md5_pad m =
     m @ [0x80] @ replicate ((55 + 64 - length m mod 64) mod 64) 0
       @ map (\<lambda>i. unat (take_bit 8 (drop_bit (8 * i) (of_nat (8 * length m) :: 64 word))))
           [0..<8]"

definition le_word :: "bytes \<Rightarrow> word32" where
  "le_word bs = foldr (\<lambda>b acc. of_nat (b mod 256) + push_bit 8 acc) bs 0"

fun chunks :: "nat \<Rightarrow> nat \<Rightarrow> 'a list \<Rightarrow> 'a list list" where
  "chunks 0 k xs = []"
| "chunks (Suc n) k xs = take k xs # chunks n k (drop k xs)"

type_synonym md5_state = "word32 \<times> word32 \<times> word32 \<times> word32"

definition md5_step :: "word32 list \<Rightarrow> md5_state \<Rightarrow> nat \<Rightarrow> md5_state" where
  "md5_step M = (\<lambda>(A, B, C, D) i.
     let (F, g) =
           (if i < 16 then ((B AND C) OR (NOT B AND D), i)
            else if i < 32 then ((D AND B) OR (NOT D AND C), (5 * i + 1) mod 16)
            else if i < 48 then (B XOR C XOR D, (3 * i + 5) mod 16)
            else (C XOR (B OR NOT D), (7 * i) mod 16))
     in (D, B + rotl (md5_s ! i) (F + A + md5_K ! i + M ! g), B, C))"

definition md5_block :: "md5_state \<Rightarrow> bytes \<Rightarrow> md5_state" where
  "md5_block = (\<lambda>(a0, b0, c0, d0) block.
     let M = map le_word (chunks 16 4 block);
         (A, B, C, D) = foldl (md5_step M) (a0, b0, c0, d0) [0..<64]
     in (a0 + A, b0 + B, c0 + C, d0 + D))"

definition md5 :: "bytes \<Rightarrow> md5_state" where
  "md5 m =
     (let p = md5_pad m
      in foldl md5_block (0x67452301, 0xefcdab89, 0x98badcfe, 0x10325476)
           (chunks (length p div 64) 64 p))"

text \<open>\<open>hexdigest()\<close>: the four words as bytes, least significant first, each byte as two
  lower-case hexadecimal digits.\<close>

definition hexchar :: "nat \<Rightarrow> nat" where
  "hexchar d = (if d < 10 then 48 + d else 87 + d)"

definition hexbyte :: "nat \<Rightarrow> ustr" where
  "hexbyte b = [hexchar (b div 16 mod 16), hexchar (b mod 16)]"

definition word_bytes :: "word32 \<Rightarrow> bytes" where
  "word_bytes w = map (\<lambda>i. unat (take_bit 8 (drop_bit (8 * i) w))) [0..<4]"

definition hexdigest :: "md5_state \<Rightarrow> ustr" where
  "hexdigest = (\<lambda>(A, B, C, D).
     concat (map hexbyte (word_bytes A @ word_bytes B @ word_bytes C @ word_bytes D)))"

section \<open>The world outside the program\<close>

text \<open>
  \<open>requests.get\<close> either raises or returns a response.  \<open>response_text\<close> is
  \<open>response.text\<close> as read after the encoding fallback of \<open>download_page\<close>.
\<close>

record response =
  status_code :: nat
  content :: bytes
  response_text :: ustr

datatype reply = Raises | Returns response

text \<open>
  The parsed page: \<open>Tag name attrs contents\<close> is a \<open>bs4\<close> tag, whose \<open>attrs\<close> is a dict
  (keys in insertion order, no key twice); everything else in the tree (text, comments,
  doctype) is a \<open>NavigableString\<close>.  The attributes the program reads or writes hold
  strings; the values of multi-valued attributes such as \<open>class\<close>, which it never touches,
  are kept as one string.
\<close>

type_synonym attrs = "(ustr \<times> ustr) list"

datatype node = Tag ustr attrs "node list" | NavigableString ustr

text \<open>
  What the run is given: the answers of the unmodelled library checks, the environment
  variable \<open>BASE_URL\<close>, the network (\<open>requests_get n u\<close> is what the request number \<open>n\<close>
  of the run, to the URL \<open>u\<close>, does), and the parser and serialiser of BeautifulSoup.
\<close>

record world =
  urllib :: pylib
  BASE_URL :: ustr
  requests_get :: "nat \<Rightarrow> ustr \<Rightarrow> reply"
  BeautifulSoup :: "ustr \<Rightarrow> node list"
  soup_str :: "node list \<Rightarrow> ustr"

text \<open>
  What the run changes: the files of \<open>assets_dir\<close> by name, the requests sent (oldest
  first), the lines printed, and the output file \<open>original/index.html\<close>.  Calls into the
  file system are taken to succeed.
\<close>

record state =
  assets :: "ustr \<rightharpoonup> bytes"
  requests :: "ustr list"
  printed :: "ustr list"
  index_html :: "bytes option"

definition get :: "world \<Rightarrow> ustr \<Rightarrow> state \<Rightarrow> reply \<times> state" where
  "get w url st =
     (requests_get w (length (requests st)) url, st\<lparr>requests := requests st @ [url]\<rparr>)"

section \<open>\<open>download.py\<close>\<close>

definition ASSET_DIR_NAME :: ustr where
  "ASSET_DIR_NAME = str ''assets''"

definition basename :: "ustr \<Rightarrow> ustr" where
  "basename p = drop (nat (rfind (ch CHR ''/'') p + 1)) p"

subsection \<open>\<open>download_and_replace_asset\<close>\<close>

definition download_and_replace_asset ::
  "world \<Rightarrow> ustr \<Rightarrow> ustr \<Rightarrow> state \<Rightarrow> (error + ustr) \<times> state" where
  "download_and_replace_asset w asset_url0 base_url st =
     (if asset_url0 = [] \<or> startswith asset_url0 (str ''data:'') then (Inr asset_url0, st)
      else
        let asset_url = unquote asset_url0 in
        case urljoin (urllib w) base_url asset_url of
          Inl e \<Rightarrow> (Inl e, st)
        | Inr full_url \<Rightarrow>
        case urlsplit (urllib w) full_url [] of
          Inl e \<Rightarrow> (Inl e, st)
        | Inr parsed_url \<Rightarrow>
        case encode (path parsed_url) of
          Inl e \<Rightarrow> (Inl e, st)
        | Inr path_bytes \<Rightarrow>
            let url_hash = take 10 (hexdigest (md5 path_bytes));
                ext = snd (splitext (path parsed_url));
                original_extension = (if ext = [] then str ''.bin'' else ext);
                new_filename = url_hash @ original_extension;
                local_path = os_path_join ASSET_DIR_NAME new_filename;
                new_url = urlunsplit ([], [], local_path, query parsed_url, []);
                result = BASE_URL w @ str ''/'' @ new_url
            in if assets st new_filename = None then
                 (case get w full_url st of
                    (Raises, st1) \<Rightarrow> (Inl RequestException, st1)
                  | (Returns r, st1) \<Rightarrow>
                      if status_code r = 200 then
                        (Inr result,
                         st1\<lparr>assets := (assets st1)(new_filename \<mapsto> content r),
                             printed := printed st1 @
                               [str ''Downloaded: '' @ new_filename @ str '' (Original: ''
                                  @ basename (path parsed_url) @ str '')'']\<rparr>)
                      else
                        (Inr asset_url,
                         st1\<lparr>printed := printed st1 @
                               [str ''Failed to download: '' @ full_url]\<rparr>))
               else (Inr result, st))"

subsection \<open>\<open>process_style_attribute\<close>\<close>

text \<open>
  The matches of the pattern \<open>url\("(.*?)"\)\<close>.  After \<open>url("\<close> the lazy group takes
  the shortest run of characters other than newline that \<open>")\<close> follows; \<open>match_group\<close>
  returns it with the text left after the match.
\<close>

fun match_group :: "ustr \<Rightarrow> (ustr \<times> ustr) option" where
  "match_group [] = None"
| "match_group (c # cs) =
     (if startswith (c # cs) [34, 41] then Some ([], drop 2 (c # cs))
      else if c = 10 then None
      else (case match_group cs of
              None \<Rightarrow> None
            | Some (g, rest) \<Rightarrow> Some (c # g, rest)))"

definition url_open :: ustr where
  "url_open = [117, 114, 108, 40, 34]"

definition url_close :: ustr where
  "url_close = [34, 41]"

text \<open>
  \<open>re.sub\<close> cuts the text, left to right, into the matches (\<open>Match g\<close>, the text
  \<open>url("g")\<close>) and the characters between them.
\<close>

datatype piece = Char nat | Match ustr

function finditer :: "ustr \<Rightarrow> piece list" where
  "finditer [] = []"
| "finditer (c # cs) =
     (if startswith (c # cs) url_open then
        (case match_group (drop 5 (c # cs)) of
           None \<Rightarrow> Char c # finditer cs
         | Some (g, rest) \<Rightarrow> Match g # finditer rest)
      else Char c # finditer cs)"
  by pat_completeness auto
termination
proof -
  have shorter: "length rest < length s" if "match_group s = Some (g, rest)"
    for s g rest
    using that
  proof (induction s arbitrary: g rest)
    case Nil
    then show ?case by simp
  next
    case (Cons c cs)
    then show ?case
      by (auto split: if_splits option.splits)
  qed
  show ?thesis
  proof (relation "measure length")
    show "wf (measure length)" by simp
  qed (auto dest!: shorter)
qed

text \<open>The closure \<open>replace_url\<close>, given \<open>match.group(1)\<close>.\<close>

definition replace_url ::
  "world \<Rightarrow> ustr \<Rightarrow> ustr \<Rightarrow> state \<Rightarrow> (error + ustr) \<times> state" where
  "replace_url w base_url url st =
     (if startswith url (str ''http://'') \<or> startswith url (str ''https://'')
         \<or> startswith url (str ''//'')
      then (case download_and_replace_asset w url base_url st of
              (Inl e, st1) \<Rightarrow> (Inl e, st1)
            | (Inr new_url, st1) \<Rightarrow> (Inr (url_open @ new_url @ url_close), st1))
      else (Inr (url_open @ url @ url_close), st))"

fun sub :: "world \<Rightarrow> ustr \<Rightarrow> piece list \<Rightarrow> state \<Rightarrow> (error + ustr) \<times> state" where
  "sub w base_url [] st = (Inr [], st)"
| "sub w base_url (Char c # ps) st =
     (case sub w base_url ps st of
        (Inl e, st1) \<Rightarrow> (Inl e, st1)
      | (Inr out, st1) \<Rightarrow> (Inr (c # out), st1))"
| "sub w base_url (Match g # ps) st =
     (case replace_url w base_url g st of
        (Inl e, st1) \<Rightarrow> (Inl e, st1)
      | (Inr t, st1) \<Rightarrow>
          (case sub w base_url ps st1 of
             (Inl e, st2) \<Rightarrow> (Inl e, st2)
           | (Inr out, st2) \<Rightarrow> (Inr (t @ out), st2)))"

definition process_style_attribute ::
  "world \<Rightarrow> ustr \<Rightarrow> ustr \<Rightarrow> state \<Rightarrow> (error + ustr) \<times> state" where
  "process_style_attribute w style base_url st = sub w base_url (finditer style) st"

subsection \<open>\<open>download_page\<close>\<close>

text \<open>Lines 42 to 45: \<open>integrity\<close> and \<open>crossorigin\<close> are deleted.\<close>

definition delete_sri :: "attrs \<Rightarrow> attrs" where
  "delete_sri a = AList.delete (str ''crossorigin'') (AList.delete (str ''integrity'') a)"

text \<open>Lines 48 and 49: the \<open>style\<close> attribute.\<close>

definition rewrite_style :: "world \<Rightarrow> ustr \<Rightarrow> attrs \<Rightarrow> state \<Rightarrow> (error + attrs) \<times> state" where
  "rewrite_style w url a st =
     (case map_of a (str ''style'') of
        None \<Rightarrow> (Inr a, st)
      | Some style \<Rightarrow>
          (case process_style_attribute w style url st of
             (Inl e, st1) \<Rightarrow> (Inl e, st1)
           | (Inr style', st1) \<Rightarrow> (Inr (AList.update (str ''style'') style' a), st1)))"

text \<open>Lines 56 to 61: the loop over the pieces of a list of URLs.\<close>

fun new_values :: "world \<Rightarrow> ustr \<Rightarrow> ustr list \<Rightarrow> state \<Rightarrow> (error + ustr list) \<times> state" where
  "new_values w url [] st = (Inr [], st)"
| "new_values w url (asset_url # rest) st =
     (case download_and_replace_asset w (strip asset_url) url st of
        (Inl e, st1) \<Rightarrow> (Inl e, st1)
      | (Inr new_value, st1) \<Rightarrow>
          (case new_values w url rest st1 of
             (Inl e, st2) \<Rightarrow> (Inl e, st2)
           | (Inr vs, st2) \<Rightarrow> (Inr (new_value # vs), st2)))"

text \<open>
  Lines 51 to 62: the loop over \<open>tag.attrs.items()\<close>.  No iteration adds or deletes a
  key, and each writes only the key it is at, so the items the loop meets are those of
  the dict as it is when the loop starts; the function runs over that list.
\<close>

fun rewrite_items ::
  "world \<Rightarrow> ustr \<Rightarrow> (ustr \<times> ustr) list \<Rightarrow> attrs \<Rightarrow> state \<Rightarrow> (error + attrs) \<times> state" where
  "rewrite_items w url [] a st = (Inr a, st)"
| "rewrite_items w url ((attr, val) # items) a st =
     (if endswith (lower attr) (str ''url'') then
        (case download_and_replace_asset w val url st of
           (Inl e, st1) \<Rightarrow> (Inl e, st1)
         | (Inr new_value, st1) \<Rightarrow>
             rewrite_items w url items (AList.update attr new_value a) st1)
      else if endswith (lower attr) (str ''urls'') then
        (case new_values w url (split (ch CHR '','') val) st of
           (Inl e, st1) \<Rightarrow> (Inl e, st1)
         | (Inr vs, st1) \<Rightarrow>
             rewrite_items w url items (AList.update attr (join (str '', '') vs) a) st1)
      else rewrite_items w url items a st)"

text \<open>Lines 65 to 70: \<open>src\<close> of the media tags, else \<open>href\<close> of \<open>link\<close>.\<close>

definition rewrite_src_href ::
  "world \<Rightarrow> ustr \<Rightarrow> ustr \<Rightarrow> attrs \<Rightarrow> state \<Rightarrow> (error + attrs) \<times> state" where
  "rewrite_src_href w url name a st =
     (if name \<in> set [str ''img'', str ''script'', str ''source'']
         \<and> map_of a (str ''src'') \<noteq> None
      then (case download_and_replace_asset w (the (map_of a (str ''src''))) url st of
              (Inl e, st1) \<Rightarrow> (Inl e, st1)
            | (Inr new_src, st1) \<Rightarrow> (Inr (AList.update (str ''src'') new_src a), st1))
      else if name = str ''link'' \<and> map_of a (str ''href'') \<noteq> None
      then (case download_and_replace_asset w (the (map_of a (str ''href''))) url st of
              (Inl e, st1) \<Rightarrow> (Inl e, st1)
            | (Inr new_href, st1) \<Rightarrow> (Inr (AList.update (str ''href'') new_href a), st1))
      else (Inr a, st))"

text \<open>The body of the loop over the tags (lines 42 to 70), on one tag.\<close>

definition rewrite_tag ::
  "world \<Rightarrow> ustr \<Rightarrow> ustr \<Rightarrow> attrs \<Rightarrow> state \<Rightarrow> (error + attrs) \<times> state" where
  "rewrite_tag w url name a st =
     (case rewrite_style w url (delete_sri a) st of
        (Inl e, st1) \<Rightarrow> (Inl e, st1)
      | (Inr a1, st1) \<Rightarrow>
          (case rewrite_items w url a1 a1 st1 of
             (Inl e, st2) \<Rightarrow> (Inl e, st2)
           | (Inr a2, st2) \<Rightarrow> rewrite_src_href w url name a2 st2))"

text \<open>
  \<open>for tag in soup.find_all()\<close>: every tag, parents before children, in document order.
  The loop body changes the attributes of its tag only.
\<close>

fun rewrite_node :: "world \<Rightarrow> ustr \<Rightarrow> node \<Rightarrow> state \<Rightarrow> (error + node) \<times> state"
  and rewrite_nodes :: "world \<Rightarrow> ustr \<Rightarrow> node list \<Rightarrow> state \<Rightarrow> (error + node list) \<times> state"
where
  "rewrite_node w url (NavigableString s) st = (Inr (NavigableString s), st)"
| "rewrite_node w url (Tag name a contents) st =
     (case rewrite_tag w url name a st of
        (Inl e, st1) \<Rightarrow> (Inl e, st1)
      | (Inr a', st1) \<Rightarrow>
          (case rewrite_nodes w url contents st1 of
             (Inl e, st2) \<Rightarrow> (Inl e, st2)
           | (Inr contents', st2) \<Rightarrow> (Inr (Tag name a' contents'), st2)))"
| "rewrite_nodes w url [] st = (Inr [], st)"
| "rewrite_nodes w url (n # ns) st =
     (case rewrite_node w url n st of
        (Inl e, st1) \<Rightarrow> (Inl e, st1)
      | (Inr n', st1) \<Rightarrow>
          (case rewrite_nodes w url ns st1 of
             (Inl e, st2) \<Rightarrow> (Inl e, st2)
           | (Inr ns', st2) \<Rightarrow> (Inr (n' # ns'), st2)))"

text \<open>
  Lines 37 to 39: the first tag, in document order, whose \<open>id\<close> is \<open>i18nWebflowScript\<close>
  leaves the tree with all it contains.  The flag says whether one was found.
\<close>

fun decompose :: "node list \<Rightarrow> bool \<times> node list" where
  "decompose [] = (False, [])"
| "decompose (NavigableString s # ns) =
     (case decompose ns of (found, ns') \<Rightarrow> (found, NavigableString s # ns'))"
| "decompose (Tag name a contents # ns) =
     (if map_of a (str ''id'') = Some (str ''i18nWebflowScript'') then (True, ns)
      else (case decompose contents of
              (True, contents') \<Rightarrow> (True, Tag name a contents' # ns)
            | (False, _) \<Rightarrow>
                (case decompose ns of (found, ns') \<Rightarrow> (found, Tag name a contents # ns'))))"

text \<open>\<open>s.encode("iso-8859-1")\<close>, as the text file does on \<open>write\<close>.\<close>

definition encode_latin1 :: "ustr \<Rightarrow> error + bytes" where
  "encode_latin1 s =
     (if list_ex (\<lambda>c. 256 \<le> c) s then Inl (UnicodeEncodeError Latin1) else Inr s)"

text \<open>
  \<open>download_page\<close>.  Line 32 drops what UTF-8 cannot encode, the surrogates.  On line 72
  \<open>open\<close> creates the file, or empties it, before line 73 encodes and writes the text.
\<close>

definition download_page :: "world \<Rightarrow> ustr \<Rightarrow> state \<Rightarrow> (error + unit) \<times> state" where
  "download_page w url st =
     (case get w url st of
        (Raises, st1) \<Rightarrow> (Inl RequestException, st1)
      | (Returns r, st1) \<Rightarrow>
          let content = filter (\<lambda>c. \<not> surrogate c) (response_text r);
              soup = snd (decompose (BeautifulSoup w content))
          in case rewrite_nodes w url soup st1 of
               (Inl e, st2) \<Rightarrow> (Inl e, st2)
             | (Inr soup', st2) \<Rightarrow>
                 (case encode_latin1 (soup_str w soup') of
                    Inl e \<Rightarrow> (Inl e, st2\<lparr>index_html := Some []\<rparr>)
                  | Inr b \<Rightarrow> (Inr (), st2\<lparr>index_html := Some b\<rparr>)))"

section \<open>Notions of the specification\<close>

text \<open>
  The absolute URL of a locator, and its parts: the locator is percent-decoded, joined
  to the base URL and split.
\<close>

definition full_url_of :: "world \<Rightarrow> ustr \<Rightarrow> ustr \<Rightarrow> error + ustr" where
  "full_url_of w base_url locator = urljoin (urllib w) base_url (unquote locator)"

definition parsed_of :: "world \<Rightarrow> ustr \<Rightarrow> ustr \<Rightarrow> error + SplitResult" where
  "parsed_of w base_url locator =
     (case full_url_of w base_url locator of
        Inl e \<Rightarrow> Inl e
      | Inr full_url \<Rightarrow> urlsplit (urllib w) full_url [])"

text \<open>The cache key of a path, and the name of the cached asset.\<close>

definition cache_key :: "bytes \<Rightarrow> ustr" where
  "cache_key path_bytes = take 10 (hexdigest (md5 path_bytes))"

definition extension_of :: "ustr \<Rightarrow> ustr" where
  "extension_of p = (if snd (splitext p) = [] then str ''.bin'' else snd (splitext p))"

definition filename_of :: "ustr \<Rightarrow> error + ustr" where
  "filename_of p =
     (case encode p of
        Inl e \<Rightarrow> Inl e
      | Inr path_bytes \<Rightarrow> Inr (cache_key path_bytes @ extension_of p))"

text \<open>The local reference to a cached asset, with a query string.\<close>

definition local_reference :: "world \<Rightarrow> ustr \<Rightarrow> ustr \<Rightarrow> ustr" where
  "local_reference w filename q =
     BASE_URL w @ str ''/'' @ ASSET_DIR_NAME @ str ''/'' @ filename
       @ (if q = [] then [] else str ''?'' @ q)"

definition hexadecimal :: "nat \<Rightarrow> bool" where
  "hexadecimal c = ((48 \<le> c \<and> c \<le> 57) \<or> (97 \<le> c \<and> c \<le> 102))"

text \<open>
  The tags of a tree as \<open>soup.find_all()\<close> lists them, each with its attributes: parents
  before children, in document order.
\<close>

fun find_all :: "node list \<Rightarrow> (ustr \<times> attrs) list" where
  "find_all [] = []"
| "find_all (NavigableString s # ns) = find_all ns"
| "find_all (Tag name a contents # ns) = (name, a) # find_all contents @ find_all ns"

text \<open>
  The attributes of a tag called \<open>name\<close> that no rule of the tree rewriter is about.
\<close>

definition kept_attribute :: "ustr \<Rightarrow> ustr \<Rightarrow> bool" where
  "kept_attribute name attr =
     (\<not> endswith (lower attr) (str ''url'') \<and> \<not> endswith (lower attr) (str ''urls'')
      \<and> attr \<noteq> str ''style'' \<and> attr \<noteq> str ''integrity'' \<and> attr \<noteq> str ''crossorigin''
      \<and> \<not> (attr = str ''src'' \<and> name \<in> set [str ''img'', str ''script'', str ''source''])
      \<and> \<not> (attr = str ''href'' \<and> name = str ''link''))"



text \<open>
  The style rewriter, piece by piece.  The text of a piece; the test of \<open>replace_url\<close>
  on the inner value of a match; and what is asked of one piece: in the state \<open>s\<close> it is
  replaced by the text \<open>t\<close> and leaves the state \<open>s'\<close>.
\<close>

fun piece_text :: "piece \<Rightarrow> ustr" where
  "piece_text (Char c) = [c]"
| "piece_text (Match inner) = url_open @ inner @ url_close"

definition remote :: "ustr \<Rightarrow> bool" where
  "remote inner =
     (startswith inner (str ''http://'') \<or> startswith inner (str ''https://'')
      \<or> startswith inner (str ''//''))"

definition piece_rewritten ::
  "world \<Rightarrow> ustr \<Rightarrow> piece \<Rightarrow> state \<Rightarrow> ustr \<Rightarrow> state \<Rightarrow> bool" where
  "piece_rewritten w base_url p s t s' =
     (case p of
        Char c \<Rightarrow> t = [c] \<and> s' = s
      | Match inner \<Rightarrow>
          if remote inner
          then (\<exists>ref. download_and_replace_asset w inner base_url s = (Inr ref, s')
                  \<and> t = url_open @ ref @ url_close)
          else t = url_open @ inner @ url_close \<and> s' = s)"

text \<open>
  A style text rewritten to \<open>out\<close>, from the state \<open>st\<close> to the state \<open>st'\<close>: the pieces
  are rewritten from left to right, each in the state its predecessor left, and \<open>out\<close>
  is their new texts in a row.
\<close>

definition style_rewritten ::
  "world \<Rightarrow> ustr \<Rightarrow> ustr \<Rightarrow> state \<Rightarrow> ustr \<Rightarrow> state \<Rightarrow> bool" where
  "style_rewritten w base_url style st out st' =
     (\<exists>outs sts.
        length outs = length (finditer style) \<and> length sts = length (finditer style)
        \<and> out = concat outs \<and> st' = last (st # sts)
        \<and> (\<forall>i < length (finditer style).
              piece_rewritten w base_url (finditer style ! i) ((st # sts) ! i) (outs ! i)
                (sts ! i)))"

text \<open>
  The pattern \<open>url\("(.*?)"\)\<close> read without the code: it matches at the start of a text
  that is \<open>url("\<close>, a run without a newline, \<open>")\<close> and a rest; the lazy group takes the
  shortest such run, the one that holds no \<open>")\<close>.
\<close>

definition match_starts :: "ustr \<Rightarrow> bool" where
  "match_starts s = (\<exists>g rest. s = url_open @ g @ url_close @ rest \<and> 10 \<notin> set g)"

definition lazy_inner :: "ustr \<Rightarrow> bool" where
  "lazy_inner g =
     (10 \<notin> set g \<and> (\<forall>k. Suc k < length g \<longrightarrow> \<not> (g ! k = 34 \<and> g ! Suc k = 41)))"

section \<open>Examples of worlds\<close>

definition lib0 :: pylib where
  "lib0 = \<lparr>check_bracketed_host = (\<lambda>_. True), checknetloc = (\<lambda>_. True)\<rparr>"

text \<open>A network that answers every request with the given status and three bytes.\<close>

definition answering :: "nat \<Rightarrow> nat \<Rightarrow> ustr \<Rightarrow> reply" where
  "answering code n u = Returns \<lparr>status_code = code, content = [1, 2, 3], response_text = []\<rparr>"

definition world_of :: "(nat \<Rightarrow> ustr \<Rightarrow> reply) \<Rightarrow> world" where
  "world_of net =
     \<lparr>urllib = lib0, BASE_URL = str ''/mirror'', requests_get = net,
      BeautifulSoup = (\<lambda>s. [NavigableString s]),
      soup_str = (\<lambda>ns. concat (map (\<lambda>n. case n of NavigableString s \<Rightarrow> s | Tag _ _ _ \<Rightarrow> []) ns))\<rparr>"

definition st0 :: state where
  "st0 = \<lparr>assets = Map.empty, requests = [], printed = [], index_html = None\<rparr>"

definition page_url :: ustr where
  "page_url = str ''http://h/p''"

text \<open>A network that answers every request with status 200 and the given text.\<close>

definition serving :: "ustr \<Rightarrow> nat \<Rightarrow> ustr \<Rightarrow> reply" where
  "serving text n u = Returns \<lparr>status_code = 200, content = [], response_text = text\<rparr>"

text \<open>A network on which every request raises.\<close>

definition unreachable :: "nat \<Rightarrow> ustr \<Rightarrow> reply" where
  "unreachable n u = Raises"

section \<open>The asset cache and fetcher\<close>

text \<open>
  C6.  A locator that is empty or starts with \<open>data:\<close> comes back as it is, and the
  state is the same after the call: no request, no file, no line printed.
\<close>

theorem passthrough_empty_or_data:
  "asset_url = [] \<or> startswith asset_url (str ''data:'') \<Longrightarrow>
   download_and_replace_asset w asset_url base_url st = (Inr asset_url, st)"
  by (simp add: download_and_replace_asset_def)

theorem passthrough_empty_or_data_witness:
  "startswith (str ''data:image/png;base64,AAAA'') (str ''data:'')
   \<and> download_and_replace_asset (world_of (answering 200))
        (str ''data:image/png;base64,AAAA'') page_url st0
      = (Inr (str ''data:image/png;base64,AAAA''), st0)"
proof -
  have h: "startswith (str ''data:image/png;base64,AAAA'') (str ''data:'')"
    by (simp add: startswith_def str_def)
  from h passthrough_empty_or_data [of "str ''data:image/png;base64,AAAA''"]
  show ?thesis by blast
qed

subsection \<open>The file name and the local reference\<close>

lemma hexchar_hexadecimal: "d < 16 \<Longrightarrow> hexadecimal (hexchar d)"
  by (auto simp: hexadecimal_def hexchar_def)

lemma hexbyte_hexadecimal: "list_all hexadecimal (hexbyte b)"
  by (simp add: hexbyte_def hexchar_hexadecimal)

lemma length_concat_hexbyte: "length (concat (map hexbyte bs)) = 2 * length bs"
  by (induction bs) (simp_all add: hexbyte_def)

lemma list_all_concat_hexbyte: "list_all hexadecimal (concat (map hexbyte bs))"
  by (induction bs) (simp_all add: hexbyte_hexadecimal)

lemma length_word_bytes: "length (word_bytes w) = 4"
  by (simp add: word_bytes_def)

lemma length_hexdigest: "length (hexdigest d) = 32"
  by (cases d) (simp add: hexdigest_def length_concat_hexbyte length_word_bytes)

lemma hexadecimal_hexdigest: "list_all hexadecimal (hexdigest d)"
  by (cases d) (simp add: hexdigest_def list_all_concat_hexbyte)

lemma length_cache_key: "length (cache_key b) = 10"
  by (simp add: cache_key_def length_hexdigest)

lemma hexadecimal_cache_key: "list_all hexadecimal (cache_key b)"
proof -
  have "set (take 10 (hexdigest (md5 b))) \<subseteq> set (hexdigest (md5 b))"
    by (rule set_take_subset)
  with hexadecimal_hexdigest [of "md5 b"] show ?thesis
    by (auto simp: cache_key_def list_all_iff)
qed

lemma cache_key_Cons: "\<exists>c cs. cache_key b = c # cs \<and> hexadecimal c"
proof (cases "cache_key b")
  case Nil
  with length_cache_key [of b] show ?thesis by simp
next
  case (Cons c cs)
  with hexadecimal_cache_key [of b] show ?thesis by simp
qed

lemma hexadecimal_not_slash: "hexadecimal c \<Longrightarrow> c \<noteq> 47"
  by (auto simp: hexadecimal_def)

lemma local_path_reference:
  assumes "filename = c # cs" and "c \<noteq> 47"
  shows "BASE_URL w @ str ''/''
           @ urlunsplit ([], [], os_path_join ASSET_DIR_NAME filename, q, [])
         = local_reference w filename q"
  using assms
  by (simp add: local_reference_def urlunsplit_def os_path_join_def ASSET_DIR_NAME_def
      startswith_def endswith_def str_def)

lemma filename_of_Cons:
  assumes "filename_of p = Inr filename"
  shows "\<exists>c cs. filename = c # cs \<and> c \<noteq> 47"
proof -
  from assms obtain b where "filename = cache_key b @ extension_of p"
    by (auto simp: filename_of_def split: sum.splits)
  moreover obtain c cs where "cache_key b = c # cs" "hexadecimal c"
    using cache_key_Cons by blast
  ultimately show ?thesis
    using hexadecimal_not_slash by auto
qed

lemma download_unfold:
  assumes "asset_url \<noteq> []" and "\<not> startswith asset_url (str ''data:'')"
    and "full_url_of w base_url asset_url = Inr full_url"
    and "parsed_of w base_url asset_url = Inr parsed_url"
    and "filename_of (path parsed_url) = Inr filename"
  shows "download_and_replace_asset w asset_url base_url st =
     (if assets st filename = None then
        (case requests_get w (length (requests st)) full_url of
           Raises \<Rightarrow> (Inl RequestException, st\<lparr>requests := requests st @ [full_url]\<rparr>)
         | Returns r \<Rightarrow>
             if status_code r = 200 then
               (Inr (local_reference w filename (query parsed_url)),
                st\<lparr>requests := requests st @ [full_url],
                   assets := (assets st)(filename \<mapsto> content r),
                   printed := printed st @
                     [str ''Downloaded: '' @ filename @ str '' (Original: ''
                        @ basename (path parsed_url) @ str '')'']\<rparr>)
             else
               (Inr (unquote asset_url),
                st\<lparr>requests := requests st @ [full_url],
                   printed := printed st @ [str ''Failed to download: '' @ full_url]\<rparr>))
      else (Inr (local_reference w filename (query parsed_url)), st))"
proof -
  from assms(3,4) have split: "urlsplit (urllib w) full_url [] = Inr parsed_url"
    by (simp add: parsed_of_def)
  from assms(3) have joined: "urljoin (urllib w) base_url (unquote asset_url) = Inr full_url"
    by (simp add: full_url_of_def)
  from assms(5) obtain b where b: "encode (path parsed_url) = Inr b"
    and name: "filename = cache_key b @ extension_of (path parsed_url)"
    by (auto simp: filename_of_def split: sum.splits)
  obtain c cs where c: "filename = c # cs" "c \<noteq> 47"
    using filename_of_Cons [OF assms(5)] by blast
  have ref: "BASE_URL w @ str ''/''
      @ urlunsplit ([], [], os_path_join ASSET_DIR_NAME filename, query parsed_url, [])
      = local_reference w filename (query parsed_url)"
    by (rule local_path_reference [OF c])
  show ?thesis
  proof (cases "snd (splitext (path parsed_url)) = []")
    case True
    then have n: "filename = take 10 (hexdigest (md5 b)) @ str ''.bin''"
      by (simp add: name cache_key_def extension_of_def)
    show ?thesis
      unfolding download_and_replace_asset_def
      using assms(1,2) True ref [unfolded n]
      by (simp add: joined split b Let_def n get_def split: reply.splits)
  next
    case False
    then have n: "filename = take 10 (hexdigest (md5 b)) @ snd (splitext (path parsed_url))"
      by (simp add: name cache_key_def extension_of_def)
    show ?thesis
      unfolding download_and_replace_asset_def
      using assms(1,2) False ref [unfolded n]
      by (simp add: joined split b Let_def n get_def split: reply.splits)
  qed
qed

lemma parsed_full:
  assumes "parsed_of w base_url asset_url = Inr parsed_url"
  shows "\<exists>full_url. full_url_of w base_url asset_url = Inr full_url"
  using assms by (cases "full_url_of w base_url asset_url") (simp_all add: parsed_of_def)

lemma download_unresolved:
  "(\<exists>full_url parsed_url filename.
      asset_url \<noteq> [] \<and> \<not> startswith asset_url (str ''data:'')
      \<and> full_url_of w base_url asset_url = Inr full_url
      \<and> parsed_of w base_url asset_url = Inr parsed_url
      \<and> filename_of (path parsed_url) = Inr filename)
   \<or> snd (download_and_replace_asset w asset_url base_url st) = st"
  by (auto simp: download_and_replace_asset_def full_url_of_def parsed_of_def filename_of_def
      split: sum.splits)

text \<open>What one call does to the state, once the locator resolves to a file name.\<close>

lemma download_effect:
  assumes "asset_url \<noteq> []" and "\<not> startswith asset_url (str ''data:'')"
    and "parsed_of w base_url asset_url = Inr parsed_url"
    and "filename_of (path parsed_url) = Inr filename"
    and "download_and_replace_asset w asset_url base_url st = (r, st')"
  shows "(assets st filename \<noteq> None \<longrightarrow>
            st' = st \<and> r = Inr (local_reference w filename (query parsed_url)))
       \<and> (assets st filename = None \<longrightarrow> length (requests st') = Suc (length (requests st)))
       \<and> (assets st' = assets st
            \<or> (assets st filename = None \<and> (\<exists>c. assets st' = (assets st)(filename \<mapsto> c))
               \<and> r = Inr (local_reference w filename (query parsed_url))))
       \<and> (assets st' filename \<noteq> None \<longrightarrow>
            r = Inr (local_reference w filename (query parsed_url)))
       \<and> (assets st' filename = None \<longrightarrow> r = Inl RequestException \<or> r = Inr (unquote asset_url))"
proof -
  obtain full_url where full: "full_url_of w base_url asset_url = Inr full_url"
    using parsed_full [OF assms(3)] by blast
  note unfold = download_unfold [OF assms(1,2) full assms(3,4), of st]
  show ?thesis
  proof (cases "assets st filename = None")
    case False
    with unfold assms(5) show ?thesis by auto
  next
    case True
    show ?thesis
    proof (cases "requests_get w (length (requests st)) full_url")
      case Raises
      with unfold assms(5) True show ?thesis by auto
    next
      case (Returns resp)
      with unfold assms(5) True show ?thesis
        by (cases "status_code resp = 200") auto
    qed
  qed
qed

subsection \<open>Some locators of the page \<open>http://h/p\<close>\<close>

lemmas url_eval =
  urljoin_def urlparse_def urlsplit_def urlunparse_def urlunsplit_def join_paths_def
  filter_inner_def splitparams_def split_scheme_def splitnetloc_def split1_def rfind_def
  lower_def lower_char_def scheme_chars_def ascii_alpha_def netloc_delim_def
  WHATWG_C0_CONTROL_OR_SPACE_def UNSAFE_URL_BYTES_TO_REMOVE_def uses_relative_def
  uses_netloc_def uses_params_def str_def Let_def lib0_def

lemmas unquote_eval = unquote_def unquote_to_bytes_def hexdig_def str_def

lemma urllib_world_of: "urllib (world_of net) = lib0"
  by (simp add: world_of_def)

lemma unquote_v1: "unquote (str ''a.png?v=1'') = str ''a.png?v=1''"
  by (simp add: unquote_eval)

lemma unquote_v2: "unquote (str ''a.png?v=2'') = str ''a.png?v=2''"
  by (simp add: unquote_eval)

lemma unquote_v3: "unquote (str ''a.png%3Fv=3'') = str ''a.png?v=3''"
  by (simp add: unquote_eval)

lemma unquote_space: "unquote (str ''a%20b.png'') = str ''a b.png''"
  by (simp add: unquote_eval)

lemma urljoin_v1: "urljoin lib0 (str ''http://h/p'') (str ''a.png?v=1'') = Inr (str ''http://h/a.png?v=1'')"
  by (simp add: url_eval)

lemma urljoin_v2: "urljoin lib0 (str ''http://h/p'') (str ''a.png?v=2'') = Inr (str ''http://h/a.png?v=2'')"
  by (simp add: url_eval)

lemma urljoin_v3: "urljoin lib0 (str ''http://h/p'') (str ''a.png?v=3'') = Inr (str ''http://h/a.png?v=3'')"
  by (simp add: url_eval)

lemma urljoin_space: "urljoin lib0 (str ''http://h/p'') (str ''a b.png'') = Inr (str ''http://h/a b.png'')"
  by (simp add: url_eval)

lemma urlsplit_v1:
  "urlsplit lib0 (str ''http://h/a.png?v=1'') []
   = Inr \<lparr>scheme = str ''http'', netloc = str ''h'', path = str ''/a.png'',
           query = str ''v=1'', fragment = []\<rparr>"
  by (simp add: url_eval)

lemma urlsplit_v2:
  "urlsplit lib0 (str ''http://h/a.png?v=2'') []
   = Inr \<lparr>scheme = str ''http'', netloc = str ''h'', path = str ''/a.png'',
           query = str ''v=2'', fragment = []\<rparr>"
  by (simp add: url_eval)

lemma urlsplit_v3:
  "urlsplit lib0 (str ''http://h/a.png?v=3'') []
   = Inr \<lparr>scheme = str ''http'', netloc = str ''h'', path = str ''/a.png'',
           query = str ''v=3'', fragment = []\<rparr>"
  by (simp add: url_eval)

lemma urlsplit_space:
  "urlsplit lib0 (str ''http://h/a b.png'') []
   = Inr \<lparr>scheme = str ''http'', netloc = str ''h'', path = str ''/a b.png'',
           query = [], fragment = []\<rparr>"
  by (simp add: url_eval)

lemma urlsplit_locator_v3:
  "urlsplit lib0 (str ''a.png%3Fv=3'') []
   = Inr \<lparr>scheme = [], netloc = [], path = str ''a.png%3Fv=3'', query = [], fragment = []\<rparr>"
  by (simp add: url_eval)

lemma filename_of_a_png:
  "filename_of (str ''/a.png'') = Inr (cache_key (str ''/a.png'') @ str ''.png'')"
  by (simp add: filename_of_def encode_def surrogate_def utf8_char_def extension_of_def
        splitext_def rfind_def str_def Let_def)

lemma filename_of_a_b_png:
  "filename_of (str ''/a b.png'') = Inr (cache_key (str ''/a b.png'') @ str ''.png'')"
  by (simp add: filename_of_def encode_def surrogate_def utf8_char_def extension_of_def
        splitext_def rfind_def str_def Let_def)

lemma locators_resolved:
  "str ''a.png?v=1'' \<noteq> []" "\<not> startswith (str ''a.png?v=1'') (str ''data:'')"
  "str ''a.png?v=2'' \<noteq> []" "\<not> startswith (str ''a.png?v=2'') (str ''data:'')"
  "str ''a.png%3Fv=3'' \<noteq> []" "\<not> startswith (str ''a.png%3Fv=3'') (str ''data:'')"
  "str ''a%20b.png'' \<noteq> []" "\<not> startswith (str ''a%20b.png'') (str ''data:'')"
  by (simp_all add: startswith_def str_def)

lemma full_v1:
  "full_url_of (world_of net) page_url (str ''a.png?v=1'') = Inr (str ''http://h/a.png?v=1'')"
  by (simp add: full_url_of_def urllib_world_of page_url_def unquote_v1 urljoin_v1)

lemma full_v2:
  "full_url_of (world_of net) page_url (str ''a.png?v=2'') = Inr (str ''http://h/a.png?v=2'')"
  by (simp add: full_url_of_def urllib_world_of page_url_def unquote_v2 urljoin_v2)

lemma full_v3:
  "full_url_of (world_of net) page_url (str ''a.png%3Fv=3'') = Inr (str ''http://h/a.png?v=3'')"
  by (simp add: full_url_of_def urllib_world_of page_url_def unquote_v3 urljoin_v3)

lemma full_space:
  "full_url_of (world_of net) page_url (str ''a%20b.png'') = Inr (str ''http://h/a b.png'')"
  by (simp add: full_url_of_def urllib_world_of page_url_def unquote_space urljoin_space)

lemma parsed_v1:
  "parsed_of (world_of net) page_url (str ''a.png?v=1'')
   = Inr \<lparr>scheme = str ''http'', netloc = str ''h'', path = str ''/a.png'',
           query = str ''v=1'', fragment = []\<rparr>"
  by (simp add: parsed_of_def full_v1 urllib_world_of urlsplit_v1)

lemma parsed_v2:
  "parsed_of (world_of net) page_url (str ''a.png?v=2'')
   = Inr \<lparr>scheme = str ''http'', netloc = str ''h'', path = str ''/a.png'',
           query = str ''v=2'', fragment = []\<rparr>"
  by (simp add: parsed_of_def full_v2 urllib_world_of urlsplit_v2)

lemma parsed_v3:
  "parsed_of (world_of net) page_url (str ''a.png%3Fv=3'')
   = Inr \<lparr>scheme = str ''http'', netloc = str ''h'', path = str ''/a.png'',
           query = str ''v=3'', fragment = []\<rparr>"
  by (simp add: parsed_of_def full_v3 urllib_world_of urlsplit_v3)

lemma parsed_space:
  "parsed_of (world_of net) page_url (str ''a%20b.png'')
   = Inr \<lparr>scheme = str ''http'', netloc = str ''h'', path = str ''/a b.png'',
           query = [], fragment = []\<rparr>"
  by (simp add: parsed_of_def full_space urllib_world_of urlsplit_space)

lemma filename_v1:
  "filename_of (path \<lparr>scheme = str ''http'', netloc = str ''h'', path = str ''/a.png'',
      query = q, fragment = []\<rparr>) = Inr (cache_key (str ''/a.png'') @ str ''.png'')"
  by (simp add: filename_of_a_png)

lemma filename_space:
  "filename_of (path \<lparr>scheme = str ''http'', netloc = str ''h'', path = str ''/a b.png'',
      query = q, fragment = []\<rparr>) = Inr (cache_key (str ''/a b.png'') @ str ''.png'')"
  by (simp add: filename_of_a_b_png)

text \<open>The calls on these locators, in any state and on any network.\<close>

lemmas call_v1 =
  download_unfold [OF locators_resolved(1,2) full_v1 parsed_v1 filename_v1, simplified]

lemmas call_v2 =
  download_unfold [OF locators_resolved(3,4) full_v2 parsed_v2 filename_v1, simplified]

lemmas call_v3 =
  download_unfold [OF locators_resolved(5,6) full_v3 parsed_v3 filename_v1, simplified]

lemmas call_space =
  download_unfold [OF locators_resolved(7,8) full_space parsed_space filename_space, simplified]

lemma requests_get_world_of: "requests_get (world_of net) = net"
  by (simp add: world_of_def)

lemma str_append: "str (a @ b) = str a @ str b"
  by (simp add: str_def)

lemma encode_a_png: "encode (str ''/a.png'') = Inr (str ''/a.png'')"
  by (simp add: encode_def surrogate_def utf8_char_def str_def)

lemma local_reference_mirror:
  "local_reference (world_of net) filename q
   = str ''/mirror/assets/'' @ filename @ (if q = [] then [] else str ''?'' @ q)"
  by (simp add: local_reference_def world_of_def ASSET_DIR_NAME_def str_def)

lemma call_200_v1:
  "download_and_replace_asset (world_of (answering 200)) (str ''a.png?v=1'') page_url st0
   = (Inr (str ''/mirror/assets/'' @ cache_key (str ''/a.png'') @ str ''.png'' @ str ''?v=1''),
      st0\<lparr>requests := [str ''http://h/a.png?v=1''],
         assets := [cache_key (str ''/a.png'') @ str ''.png'' \<mapsto> [1, 2, 3]],
         printed := [str ''Downloaded: '' @ cache_key (str ''/a.png'') @ str ''.png''
                       @ str '' (Original: a.png)'']\<rparr>)"
  by (simp add: call_v1 st0_def requests_get_world_of answering_def local_reference_mirror)
     (simp add: str_def basename_def rfind_def)

subsection \<open>The file name\<close>

text \<open>
  C7.  A call that puts a file into the asset store resolved its locator to an absolute
  URL; the one file it adds is named by the first ten characters, all hexadecimal
  digits, of the MD5 digest of that URL's path, query excluded, followed by the extension
  of the path, or by \<open>.bin\<close> when the path has none.
\<close>

theorem cached_file_name:
  assumes "download_and_replace_asset w asset_url base_url st = (r, st')"
    and "assets st' \<noteq> assets st"
  shows "\<exists>parsed_url path_bytes key ext.
           parsed_of w base_url asset_url = Inr parsed_url
         \<and> encode (path parsed_url) = Inr path_bytes
         \<and> key = take 10 (hexdigest (md5 path_bytes))
         \<and> length key = 10 \<and> list_all hexadecimal key
         \<and> ext = (if snd (splitext (path parsed_url)) = [] then str ''.bin''
                   else snd (splitext (path parsed_url)))
         \<and> assets st (key @ ext) = None
         \<and> (\<exists>c. assets st' = (assets st)(key @ ext \<mapsto> c))"
proof -
  from assms have "snd (download_and_replace_asset w asset_url base_url st) \<noteq> st"
    by auto
  with download_unresolved [of asset_url w base_url st]
  obtain parsed_url filename where loc: "asset_url \<noteq> []" "\<not> startswith asset_url (str ''data:'')"
    and parsed: "parsed_of w base_url asset_url = Inr parsed_url"
    and name: "filename_of (path parsed_url) = Inr filename"
    by blast
  from name obtain path_bytes where enc: "encode (path parsed_url) = Inr path_bytes"
    and filename: "filename = cache_key path_bytes @ extension_of (path parsed_url)"
    by (auto simp: filename_of_def split: sum.splits)
  from download_effect [OF loc parsed name assms(1)] assms(2)
  have "assets st filename = None" and "\<exists>c. assets st' = (assets st)(filename \<mapsto> c)"
    by auto
  with parsed enc filename show ?thesis
    using length_cache_key [of path_bytes] hexadecimal_cache_key [of path_bytes]
    by (auto simp: cache_key_def extension_of_def)
qed

theorem cached_file_name_witness:
  "assets (snd (download_and_replace_asset (world_of (answering 200)) (str ''a.png?v=1'')
      page_url st0)) \<noteq> assets st0
   \<and> (\<exists>key. key = take 10 (hexdigest (md5 (str ''/a.png'')))
        \<and> length key = 10 \<and> list_all hexadecimal key
        \<and> assets st0 (key @ str ''.png'') = None
        \<and> (\<exists>c. assets (snd (download_and_replace_asset (world_of (answering 200))
                (str ''a.png?v=1'') page_url st0)) = (assets st0)(key @ str ''.png'' \<mapsto> c)))"
proof -
  let ?call = "download_and_replace_asset (world_of (answering 200)) (str ''a.png?v=1'')
    page_url st0"
  have changed: "assets (snd ?call) \<noteq> assets st0"
    by (simp add: call_200_v1) (simp add: st0_def)
  have ext: "snd (splitext (str ''/a.png'')) = str ''.png''"
    by (simp add: splitext_def rfind_def str_def Let_def)
  from cached_file_name [OF surjective_pairing changed]
  obtain parsed_url path_bytes key
    where p: "parsed_of (world_of (answering 200)) page_url (str ''a.png?v=1'') = Inr parsed_url"
      and e: "encode (path parsed_url) = Inr path_bytes"
      and k: "key = take 10 (hexdigest (md5 path_bytes))"
        "length key = 10" "list_all hexadecimal key"
      and a: "assets st0 (key @ (if snd (splitext (path parsed_url)) = [] then str ''.bin''
             else snd (splitext (path parsed_url)))) = None"
        "\<exists>c. assets (snd ?call) = (assets st0)(key @ (if snd (splitext (path parsed_url)) = []
             then str ''.bin'' else snd (splitext (path parsed_url))) \<mapsto> c)"
    by blast
  from p have pa: "path parsed_url = str ''/a.png''"
    by (auto simp: parsed_v1)
  from e have pb: "path_bytes = str ''/a.png''"
    by (simp add: pa encode_a_png)
  have nonempty: "str ''.png'' \<noteq> []"
    by (simp add: str_def)
  from k a have "key = take 10 (hexdigest (md5 (str ''/a.png'')))
      \<and> length key = 10 \<and> list_all hexadecimal key
      \<and> assets st0 (key @ str ''.png'') = None
      \<and> (\<exists>c. assets (snd ?call) = (assets st0)(key @ str ''.png'' \<mapsto> c))"
    unfolding pa pb ext using nonempty by simp
  with changed show ?thesis
    by blast
qed

subsection \<open>The local reference\<close>

text \<open>
  C3, as the code has it.  When the file of a locator is in the asset store after the
  call (fetched by it, or there before), the call returns the base path, \<open>/\<close>, the asset
  directory name, \<open>/\<close>, the file name and, after a \<open>?\<close>, the query string of the
  absolute URL that the percent-decoded locator resolved to, when that query string is
  not empty.
\<close>

theorem local_reference_shape:
  assumes "asset_url \<noteq> []" and "\<not> startswith asset_url (str ''data:'')"
    and "parsed_of w base_url asset_url = Inr parsed_url"
    and "filename_of (path parsed_url) = Inr filename"
    and "download_and_replace_asset w asset_url base_url st = (r, st')"
    and "assets st' filename \<noteq> None"
  shows "r = Inr (BASE_URL w @ str ''/'' @ ASSET_DIR_NAME @ str ''/'' @ filename
                  @ (if query parsed_url = [] then [] else str ''?'' @ query parsed_url))"
  using download_effect [OF assms(1-5)] assms(6)
  by (simp add: local_reference_def)

theorem local_reference_shape_witness:
  "str ''a.png?v=1'' \<noteq> [] \<and> \<not> startswith (str ''a.png?v=1'') (str ''data:'')
   \<and> parsed_of (world_of (answering 200)) page_url (str ''a.png?v=1'')
       = Inr \<lparr>scheme = str ''http'', netloc = str ''h'', path = str ''/a.png'',
               query = str ''v=1'', fragment = []\<rparr>
   \<and> filename_of (str ''/a.png'') = Inr (cache_key (str ''/a.png'') @ str ''.png'')
   \<and> assets (snd (download_and_replace_asset (world_of (answering 200)) (str ''a.png?v=1'')
         page_url st0)) (cache_key (str ''/a.png'') @ str ''.png'') \<noteq> None
   \<and> fst (download_and_replace_asset (world_of (answering 200)) (str ''a.png?v=1'')
         page_url st0)
       = Inr (str ''/mirror'' @ str ''/'' @ str ''assets'' @ str ''/''
              @ (cache_key (str ''/a.png'') @ str ''.png'') @ str ''?'' @ str ''v=1'')"
proof -
  let ?call = "download_and_replace_asset (world_of (answering 200)) (str ''a.png?v=1'')
    page_url st0"
  have stored: "assets (snd ?call) (cache_key (str ''/a.png'') @ str ''.png'') \<noteq> None"
    by (simp add: call_200_v1)
  have "fst ?call = Inr (BASE_URL (world_of (answering 200)) @ str ''/'' @ ASSET_DIR_NAME
      @ str ''/'' @ (cache_key (str ''/a.png'') @ str ''.png'') @ str ''?'' @ str ''v=1'')"
    using local_reference_shape [OF locators_resolved(1,2) parsed_v1 filename_v1
        surjective_pairing stored]
    by (simp add: str_def)
  then show ?thesis
    using stored locators_resolved(1,2) parsed_v1 [of "answering 200"] filename_of_a_png
    by (simp add: world_of_def ASSET_DIR_NAME_def)
qed

text \<open>
  The locator \<open>a.png%3Fv=3\<close> has no query string: its \<open>?\<close> is percent-encoded.  The call
  decodes it before it resolves it, and the reference it returns ends in \<open>?v=3\<close>.
\<close>

theorem query_of_decoded_locator:
  "urlsplit lib0 (str ''a.png%3Fv=3'') []
     = Inr \<lparr>scheme = [], netloc = [], path = str ''a.png%3Fv=3'', query = [], fragment = []\<rparr>
   \<and> fst (download_and_replace_asset (world_of (answering 200)) (str ''a.png%3Fv=3'')
         page_url st0)
       = Inr (str ''/mirror/assets/'' @ cache_key (str ''/a.png'') @ str ''.png'' @ str ''?v=3'')
   \<and> assets (snd (download_and_replace_asset (world_of (answering 200)) (str ''a.png%3Fv=3'')
         page_url st0)) (cache_key (str ''/a.png'') @ str ''.png'') = Some [1, 2, 3]"
  by (simp add: urlsplit_locator_v3 call_v3 st0_def requests_get_world_of answering_def
      local_reference_mirror)
     (simp add: str_def)

subsection \<open>One file for one path\<close>

text \<open>
  C1, as the code has it.  Two locators that resolve to the same path share the file
  name, and the file of that name is the whole cache.  Resolving the first and then the
  second:
  if the file is there before, neither call sends a request or changes anything;
  if it is not and the first request is answered 200, its content is stored under the
  name, and the second call sends no request and changes nothing: one request in all;
  if it is not and the first request is answered otherwise, no file is left and the
  second call sends a second request, whose answer alone decides whether the file
  exists afterwards: two requests in all;
  if the first request raises, so does the call, and no file is left.
\<close>

theorem same_path_same_file:
  assumes "asset_url1 \<noteq> []" and "\<not> startswith asset_url1 (str ''data:'')"
    and "asset_url2 \<noteq> []" and "\<not> startswith asset_url2 (str ''data:'')"
    and "full_url_of w base_url asset_url1 = Inr full_url1"
    and "full_url_of w base_url asset_url2 = Inr full_url2"
    and "parsed_of w base_url asset_url1 = Inr parsed_url1"
    and "parsed_of w base_url asset_url2 = Inr parsed_url2"
    and "path parsed_url1 = path parsed_url2"
    and "filename_of (path parsed_url1) = Inr filename"
    and "download_and_replace_asset w asset_url1 base_url st = (r1, st1)"
    and "download_and_replace_asset w asset_url2 base_url st1 = (r2, st2)"
  shows "filename_of (path parsed_url2) = Inr filename
       \<and> (assets st filename \<noteq> None \<longrightarrow>
            st1 = st \<and> st2 = st
            \<and> r1 = Inr (local_reference w filename (query parsed_url1))
            \<and> r2 = Inr (local_reference w filename (query parsed_url2)))
       \<and> (assets st filename = None \<longrightarrow>
            requests st1 = requests st @ [full_url1]
            \<and> (case requests_get w (length (requests st)) full_url1 of
                 Raises \<Rightarrow> r1 = Inl RequestException \<and> assets st1 = assets st
               | Returns resp1 \<Rightarrow>
                   if status_code resp1 = 200 then
                     assets st1 = (assets st)(filename \<mapsto> content resp1)
                     \<and> r1 = Inr (local_reference w filename (query parsed_url1))
                     \<and> st2 = st1
                     \<and> r2 = Inr (local_reference w filename (query parsed_url2))
                   else
                     assets st1 = assets st
                     \<and> r1 = Inr (unquote asset_url1)
                     \<and> requests st2 = requests st @ [full_url1, full_url2]
                     \<and> (case requests_get w (Suc (length (requests st))) full_url2 of
                          Raises \<Rightarrow> r2 = Inl RequestException \<and> assets st2 = assets st
                        | Returns resp2 \<Rightarrow>
                            if status_code resp2 = 200 then
                              assets st2 = (assets st)(filename \<mapsto> content resp2)
                              \<and> r2 = Inr (local_reference w filename (query parsed_url2))
                            else
                              assets st2 = assets st \<and> r2 = Inr (unquote asset_url2))))"
proof -
  from assms(9,10) have name2: "filename_of (path parsed_url2) = Inr filename"
    by simp
  note first = download_unfold [OF assms(1,2,5,7,10), of st, unfolded assms(11)]
  note second = download_unfold [OF assms(3,4,6,8) name2, of st1, unfolded assms(12)]
  have there: "st1 = st \<and> st2 = st
      \<and> r1 = Inr (local_reference w filename (query parsed_url1))
      \<and> r2 = Inr (local_reference w filename (query parsed_url2))"
    if "assets st filename \<noteq> None"
    using that first second by auto
  have absent: "requests st1 = requests st @ [full_url1]
      \<and> (case requests_get w (length (requests st)) full_url1 of
           Raises \<Rightarrow> r1 = Inl RequestException \<and> assets st1 = assets st
         | Returns resp1 \<Rightarrow>
             if status_code resp1 = 200 then
               assets st1 = (assets st)(filename \<mapsto> content resp1)
               \<and> r1 = Inr (local_reference w filename (query parsed_url1))
               \<and> st2 = st1
               \<and> r2 = Inr (local_reference w filename (query parsed_url2))
             else
               assets st1 = assets st
               \<and> r1 = Inr (unquote asset_url1)
               \<and> requests st2 = requests st @ [full_url1, full_url2]
               \<and> (case requests_get w (Suc (length (requests st))) full_url2 of
                    Raises \<Rightarrow> r2 = Inl RequestException \<and> assets st2 = assets st
                  | Returns resp2 \<Rightarrow>
                      if status_code resp2 = 200 then
                        assets st2 = (assets st)(filename \<mapsto> content resp2)
                        \<and> r2 = Inr (local_reference w filename (query parsed_url2))
                      else
                        assets st2 = assets st \<and> r2 = Inr (unquote asset_url2)))"
    if none: "assets st filename = None"
  proof (cases "requests_get w (length (requests st)) full_url1")
    case Raises
    with first none show ?thesis
      by auto
  next
    case (Returns resp1)
    show ?thesis
    proof (cases "status_code resp1 = 200")
      case True
      with first none Returns
      have st1: "st1 = st\<lparr>requests := requests st @ [full_url1],
            assets := (assets st)(filename \<mapsto> content resp1),
            printed := printed st @
              [str ''Downloaded: '' @ filename @ str '' (Original: ''
                 @ basename (path parsed_url1) @ str '')'']\<rparr>"
        and r1: "r1 = Inr (local_reference w filename (query parsed_url1))"
        by auto
      from st1 have "assets st1 filename \<noteq> None"
        by simp
      with second have "st2 = st1 \<and> r2 = Inr (local_reference w filename (query parsed_url2))"
        by auto
      with st1 r1 Returns True show ?thesis
        by simp
    next
      case False
      with first none Returns
      have st1: "st1 = st\<lparr>requests := requests st @ [full_url1],
            printed := printed st @ [str ''Failed to download: '' @ full_url1]\<rparr>"
        and r1: "r1 = Inr (unquote asset_url1)"
        by auto
      from st1 none have none1: "assets st1 filename = None"
        and len1: "length (requests st1) = Suc (length (requests st))"
        and req1: "requests st1 = requests st @ [full_url1]"
        and as1: "assets st1 = assets st"
        by simp_all
      have "requests st2 = requests st @ [full_url1, full_url2]
          \<and> (case requests_get w (Suc (length (requests st))) full_url2 of
               Raises \<Rightarrow> r2 = Inl RequestException \<and> assets st2 = assets st
             | Returns resp2 \<Rightarrow>
                 if status_code resp2 = 200 then
                   assets st2 = (assets st)(filename \<mapsto> content resp2)
                   \<and> r2 = Inr (local_reference w filename (query parsed_url2))
                 else
                   assets st2 = assets st \<and> r2 = Inr (unquote asset_url2))"
      proof (cases "requests_get w (Suc (length (requests st))) full_url2")
        case Raises
        with second none1 len1 req1 as1 show ?thesis
          by auto
      next
        case (Returns resp2)
        with second none1 len1 req1 as1 show ?thesis
          by (cases "status_code resp2 = 200") auto
      qed
      with Returns False req1 as1 r1 show ?thesis
        by simp
    qed
  qed
  from name2 there absent show ?thesis
    by blast
qed

theorem same_path_same_file_witness:
  "path \<lparr>scheme = str ''http'', netloc = str ''h'', path = str ''/a.png'',
          query = str ''v=1'', fragment = []\<rparr>
     = path \<lparr>scheme = str ''http'', netloc = str ''h'', path = str ''/a.png'',
          query = str ''v=2'', fragment = []\<rparr>
   \<and> assets st0 (cache_key (str ''/a.png'') @ str ''.png'') = None
   \<and> requests (snd (download_and_replace_asset (world_of (answering 200)) (str ''a.png?v=1'')
         page_url st0)) = [str ''http://h/a.png?v=1'']
   \<and> assets (snd (download_and_replace_asset (world_of (answering 200)) (str ''a.png?v=1'')
         page_url st0)) = [cache_key (str ''/a.png'') @ str ''.png'' \<mapsto> [1, 2, 3]]
   \<and> snd (download_and_replace_asset (world_of (answering 200)) (str ''a.png?v=2'') page_url
         (snd (download_and_replace_asset (world_of (answering 200)) (str ''a.png?v=1'')
            page_url st0)))
       = snd (download_and_replace_asset (world_of (answering 200)) (str ''a.png?v=1'')
            page_url st0)
   \<and> fst (download_and_replace_asset (world_of (answering 200)) (str ''a.png?v=2'') page_url
         (snd (download_and_replace_asset (world_of (answering 200)) (str ''a.png?v=1'')
            page_url st0)))
       = Inr (str ''/mirror/assets/'' @ cache_key (str ''/a.png'') @ str ''.png'' @ str ''?v=2'')
   \<and> assets (snd (download_and_replace_asset (world_of (answering 404)) (str ''a.png?v=1'')
         page_url st0)) = assets st0
   \<and> requests (snd (download_and_replace_asset (world_of (answering 404)) (str ''a.png?v=2'')
         page_url (snd (download_and_replace_asset (world_of (answering 404))
            (str ''a.png?v=1'') page_url st0))))
       = [str ''http://h/a.png?v=1'', str ''http://h/a.png?v=2'']
   \<and> assets (snd (download_and_replace_asset (world_of (answering 404)) (str ''a.png?v=2'')
         page_url (snd (download_and_replace_asset (world_of (answering 404))
            (str ''a.png?v=1'') page_url st0)))) = assets st0"
proof -
  have none: "assets st0 (cache_key (str ''/a.png'') @ str ''.png'') = None"
    and sent: "requests st0 = []" and empty: "assets st0 = Map.empty"
    by (simp_all add: st0_def)
  have ok: "requests_get (world_of (answering 200)) n u
      = Returns \<lparr>status_code = 200, content = [1, 2, 3], response_text = []\<rparr>"
    and missing: "requests_get (world_of (answering 404)) n u
      = Returns \<lparr>status_code = 404, content = [1, 2, 3], response_text = []\<rparr>" for n u
    by (simp_all add: requests_get_world_of answering_def)
  have query: "str ''v=2'' \<noteq> []"
    by (simp add: str_def)
  note fetched = same_path_same_file [where st = st0, OF locators_resolved(1,2,3,4)
      full_v1 [of "answering 200"] full_v2 parsed_v1 parsed_v2 _ filename_v1
      surjective_pairing surjective_pairing, simplified none sent empty ok, simplified]
  note failed = same_path_same_file [where st = st0, OF locators_resolved(1,2,3,4)
      full_v1 [of "answering 404"] full_v2 parsed_v1 parsed_v2 _ filename_v1
      surjective_pairing surjective_pairing, simplified none sent empty missing, simplified]
  have mark: "str ''?'' @ str ''v=2'' = str ''?v=2''"
    by (simp add: str_def)
  from fetched failed none show ?thesis
    by (simp add: local_reference_mirror query empty mark)
qed

text \<open>
  When the fetch fails, no file is left, and the next locator of the same path is fetched
  again: on a network that answers 404, the two calls send two requests.
\<close>

theorem two_fetches_for_one_path:
  "parsed_of (world_of (answering 404)) page_url (str ''a.png?v=1'')
     = Inr \<lparr>scheme = str ''http'', netloc = str ''h'', path = str ''/a.png'',
             query = str ''v=1'', fragment = []\<rparr>
   \<and> parsed_of (world_of (answering 404)) page_url (str ''a.png?v=2'')
     = Inr \<lparr>scheme = str ''http'', netloc = str ''h'', path = str ''/a.png'',
             query = str ''v=2'', fragment = []\<rparr>
   \<and> requests (snd (download_and_replace_asset (world_of (answering 404)) (str ''a.png?v=2'')
         page_url (snd (download_and_replace_asset (world_of (answering 404))
            (str ''a.png?v=1'') page_url st0))))
       = [str ''http://h/a.png?v=1'', str ''http://h/a.png?v=2'']"
  by (simp add: parsed_v1 parsed_v2 call_v1 call_v2 st0_def requests_get_world_of
      answering_def)

subsection \<open>A fetch that fails\<close>

text \<open>
  C2, as the code has it.  When the file is not in the asset store and the answer to the
  request has a status other than 200, the call creates no file, prints one line and
  returns a locator, so that the run goes on; the locator it returns is the
  percent-decoded one, because line 91 rebinds \<open>asset_url\<close>.
\<close>

theorem failed_fetch_returns_decoded_locator:
  assumes "asset_url \<noteq> []" and "\<not> startswith asset_url (str ''data:'')"
    and "full_url_of w base_url asset_url = Inr full_url"
    and "parsed_of w base_url asset_url = Inr parsed_url"
    and "filename_of (path parsed_url) = Inr filename"
    and "assets st filename = None"
    and "requests_get w (length (requests st)) full_url = Returns resp"
    and "status_code resp \<noteq> 200"
  shows "download_and_replace_asset w asset_url base_url st =
           (Inr (unquote asset_url),
            st\<lparr>requests := requests st @ [full_url],
               printed := printed st @ [str ''Failed to download: '' @ full_url]\<rparr>)"
  using assms(6-8) by (simp add: download_unfold [OF assms(1-5)])

theorem failed_fetch_returns_decoded_locator_witness:
  "download_and_replace_asset (world_of (answering 404)) (str ''a%20b.png'') page_url st0
     = (Inr (str ''a b.png''),
        st0\<lparr>requests := [str ''http://h/a b.png''],
           printed := [str ''Failed to download: '' @ str ''http://h/a b.png'']\<rparr>)
   \<and> str ''a b.png'' \<noteq> str ''a%20b.png''
   \<and> assets (snd (download_and_replace_asset (world_of (answering 404)) (str ''a%20b.png'')
         page_url st0)) = assets st0"
proof -
  have none: "assets st0 (cache_key (str ''/a b.png'') @ str ''.png'') = None"
    by (simp add: st0_def)
  have answer: "requests_get (world_of (answering 404)) (length (requests st0))
      (str ''http://h/a b.png'')
      = Returns \<lparr>status_code = 404, content = [1, 2, 3], response_text = []\<rparr>"
    by (simp add: requests_get_world_of answering_def)
  have call: "download_and_replace_asset (world_of (answering 404)) (str ''a%20b.png'') page_url st0
     = (Inr (str ''a b.png''),
        st0\<lparr>requests := [str ''http://h/a b.png''],
           printed := [str ''Failed to download: '' @ str ''http://h/a b.png'']\<rparr>)"
    using failed_fetch_returns_decoded_locator [OF locators_resolved(7,8) full_space
        parsed_space filename_space none answer]
    by (simp add: unquote_space) (simp add: st0_def)
  have "str ''a b.png'' \<noteq> str ''a%20b.png''"
    by (simp add: str_def)
  with call show ?thesis
    by simp
qed

section \<open>The style rewriter\<close>

subsection \<open>The pieces of a style text\<close>

lemma match_group_text:
  "match_group s = Some (g, rest) \<Longrightarrow> s = g @ url_close @ rest"
proof (induction s arbitrary: g)
  case Nil
  then show ?case by simp
next
  case (Cons c cs)
  show ?case
  proof (cases "startswith (c # cs) [34, 41]")
    case True
    then have "c # cs = [34, 41] @ drop 2 (c # cs)"
      by (metis append_take_drop_id length_Cons list.size(3) startswith_def
          numeral_2_eq_2)
    with Cons.prems True show ?thesis
      by (simp add: url_close_def)
  next
    case False
    with Cons.prems obtain g' where "match_group cs = Some (g', rest)" and "g = c # g'"
      by (auto split: if_splits option.splits)
    with Cons.IH show ?thesis
      by simp
  qed
qed

lemma finditer_text: "concat (map piece_text (finditer s)) = s"
proof (induction s rule: finditer.induct)
  case 1
  then show ?case by simp
next
  case (2 c cs)
  show ?case
  proof (cases "startswith (c # cs) url_open")
    case False
    with 2 show ?thesis
      by simp
  next
    case True
    define tail where "tail = drop 5 (c # cs)"
    from True have "c # cs = url_open @ drop 5 (c # cs)"
      by (metis append_take_drop_id startswith_def url_open_def length_Cons list.size(3)
          eval_nat_numeral(3) numeral_2_eq_2 numeral_3_eq_3 Suc_numeral semiring_norm(2,8))
    then have opened: "c # cs = url_open @ tail"
      by (simp only: tail_def)
    show ?thesis
    proof (cases "match_group (drop 5 (c # cs))")
      case None
      with 2 True show ?thesis
        by simp
    next
      case (Some found)
      obtain g rest where found: "found = (g, rest)"
        by (cases found)
      from Some found have "match_group tail = Some (g, rest)"
        by (simp only: tail_def)
      then have "tail = g @ url_close @ rest"
        by (rule match_group_text)
      with opened have whole: "c # cs = url_open @ g @ url_close @ rest"
        by (simp only:)
      from True Some found have pieces: "finditer (c # cs) = Match g # finditer rest"
        by simp
      from 2(2) [OF True Some found [symmetric]]
      have "concat (map piece_text (finditer rest)) = rest" .
      then have "concat (map piece_text (Match g # finditer rest))
          = url_open @ g @ url_close @ rest"
        by simp
      then have "concat (map piece_text (finditer (c # cs))) = url_open @ g @ url_close @ rest"
        by (simp only: pieces)
      also note whole [symmetric]
      finally show ?thesis .
    qed
  qed
qed

subsection \<open>Leftmost and lazy\<close>

lemma match_group_lazy:
  "lazy_inner g \<Longrightarrow> match_group (g @ url_close @ rest) = Some (g, rest)"
proof (induction g)
  case Nil
  then show ?case
    by (simp add: url_close_def startswith_def)
next
  case (Cons c g)
  from Cons.prems have c: "c \<noteq> 10" and inner: "lazy_inner g"
    by (auto simp: lazy_inner_def)
  have "\<not> startswith (c # g @ url_close @ rest) [34, 41]"
  proof (cases g)
    case Nil
    then show ?thesis
      by (simp add: startswith_def url_close_def)
  next
    case (Cons d g')
    with Cons.prems have "\<not> (c = 34 \<and> d = 41)"
      by (auto simp: lazy_inner_def)
    with Cons show ?thesis
      by (auto simp: startswith_def)
  qed
  with c Cons.IH [OF inner] show ?case
    by simp
qed

lemma match_group_no_newline:
  "match_group s = Some (g, rest) \<Longrightarrow> 10 \<notin> set g"
proof (induction s arbitrary: g)
  case Nil
  then show ?case by simp
next
  case (Cons c cs)
  then show ?case
    by (auto split: if_splits option.splits)
qed

lemma match_group_found:
  "10 \<notin> set g \<Longrightarrow> match_group (g @ url_close @ rest) \<noteq> None"
proof (induction g)
  case Nil
  then show ?case
    by (simp add: url_close_def startswith_def)
next
  case (Cons c g)
  then show ?case
    by (auto split: option.splits)
qed

lemma starts_url_open:
  "startswith s url_open \<longleftrightarrow> (\<exists>t. s = url_open @ t)"
proof
  assume "startswith s url_open"
  then have "s = url_open @ drop 5 s"
    by (metis append_take_drop_id startswith_def url_open_def length_Cons list.size(3)
        eval_nat_numeral(3) numeral_2_eq_2 numeral_3_eq_3 Suc_numeral semiring_norm(2,8))
  then show "\<exists>t. s = url_open @ t" ..
next
  assume "\<exists>t. s = url_open @ t"
  then show "startswith s url_open"
    by (auto simp: startswith_def)
qed

lemma match_starts_code:
  "match_starts s \<longleftrightarrow> startswith s url_open \<and> match_group (drop 5 s) \<noteq> None"
proof
  assume "match_starts s"
  then obtain g rest where s: "s = url_open @ g @ url_close @ rest" and g: "10 \<notin> set g"
    by (auto simp: match_starts_def)
  from s have "startswith s url_open"
    by (auto simp: starts_url_open)
  moreover from s have "drop 5 s = g @ url_close @ rest"
    by (simp add: url_open_def)
  ultimately show "startswith s url_open \<and> match_group (drop 5 s) \<noteq> None"
    using match_group_found [OF g] by simp
next
  assume code: "startswith s url_open \<and> match_group (drop 5 s) \<noteq> None"
  then obtain t where s: "s = url_open @ t"
    by (auto simp: starts_url_open)
  then have t: "drop 5 s = t"
    by (simp add: url_open_def)
  with code obtain g rest where found: "match_group t = Some (g, rest)"
    by auto
  from match_group_text [OF found] match_group_no_newline [OF found] s
  show "match_starts s"
    by (auto simp: match_starts_def)
qed

lemma finditer_Char:
  assumes "\<not> match_starts (c # cs)"
  shows "finditer (c # cs) = Char c # finditer cs"
proof (cases "startswith (c # cs) url_open")
  case False
  then show ?thesis
    by simp
next
  case True
  with assms have "match_group (drop 5 (c # cs)) = None"
    using match_starts_code [of "c # cs"] by blast
  with True show ?thesis
    by simp
qed

lemma finditer_Chars:
  "\<forall>k < length pre. \<not> match_starts (drop k (pre @ s)) \<Longrightarrow>
   finditer (pre @ s) = map Char pre @ finditer s"
proof (induction pre)
  case Nil
  then show ?case by simp
next
  case (Cons c pre)
  from Cons.prems have "\<not> match_starts (drop 0 ((c # pre) @ s))"
    by blast
  then have "\<not> match_starts (c # pre @ s)"
    by simp
  then have first: "finditer (c # pre @ s) = Char c # finditer (pre @ s)"
    by (rule finditer_Char)
  have "\<forall>k < length pre. \<not> match_starts (drop k (pre @ s))"
  proof (intro allI impI)
    fix k
    assume "k < length pre"
    then have "Suc k < length (c # pre)"
      by simp
    with Cons.prems have "\<not> match_starts (drop (Suc k) ((c # pre) @ s))"
      by blast
    then show "\<not> match_starts (drop k (pre @ s))"
      by simp
  qed
  with Cons.IH first show ?case
    by simp
qed

lemma finditer_Match:
  assumes "lazy_inner g"
  shows "finditer (url_open @ g @ url_close @ rest) = Match g # finditer rest"
proof -
  have "startswith (url_open @ g @ url_close @ rest) url_open"
    by (auto simp: starts_url_open)
  moreover have "drop 5 (url_open @ g @ url_close @ rest) = g @ url_close @ rest"
    by (simp add: url_open_def)
  moreover obtain c cs where "url_open @ g @ url_close @ rest = c # cs"
    by (simp add: url_open_def)
  ultimately show ?thesis
    using match_group_lazy [OF assms, of rest] by simp
qed

lemma finditer_leftmost_lazy:
  assumes "style = pre @ url_open @ g @ url_close @ rest"
    and "\<forall>k < length pre. \<not> match_starts (drop k style)" and "lazy_inner g"
  shows "finditer style = map Char pre @ Match g # finditer rest"
  using finditer_Chars [of pre "url_open @ g @ url_close @ rest"] assms
  by (simp add: finditer_Match)

lemma finditer_no_match:
  assumes "\<forall>k < length style. \<not> match_starts (drop k style)"
  shows "finditer style = map Char style"
  using finditer_Chars [of style "[]"] assms by simp

subsection \<open>Piece by piece\<close>

lemma replace_url_piece:
  assumes "replace_url w base_url inner st = (Inr t, st1)"
  shows "piece_rewritten w base_url (Match inner) st t st1"
  using assms
  by (auto simp: replace_url_def piece_rewritten_def remote_def
      split: if_splits prod.splits sum.splits)

lemma pieces_step:
  assumes first: "piece_rewritten w base_url p st t st1"
    and rest: "length outs = length ps" "length sts = length ps"
      "\<forall>i < length ps. piece_rewritten w base_url (ps ! i) ((st1 # sts) ! i) (outs ! i) (sts ! i)"
  shows "\<forall>i < length (p # ps).
      piece_rewritten w base_url ((p # ps) ! i) ((st # st1 # sts) ! i) ((t # outs) ! i)
        ((st1 # sts) ! i)"
proof (intro allI impI)
  fix i
  assume "i < length (p # ps)"
  then show "piece_rewritten w base_url ((p # ps) ! i) ((st # st1 # sts) ! i) ((t # outs) ! i)
      ((st1 # sts) ! i)"
    using first rest(3) by (cases i) simp_all
qed

lemma sub_pieces:
  "sub w base_url ps st = (Inr out, st') \<Longrightarrow>
   \<exists>outs sts. length outs = length ps \<and> length sts = length ps
     \<and> out = concat outs \<and> st' = last (st # sts)
     \<and> (\<forall>i < length ps.
           piece_rewritten w base_url (ps ! i) ((st # sts) ! i) (outs ! i) (sts ! i))"
proof (induction ps arbitrary: st out)
  case Nil
  then show ?case by simp
next
  case (Cons p ps)
  obtain t st1 out' where first: "piece_rewritten w base_url p st t st1"
    and rest: "sub w base_url ps st1 = (Inr out', st')" and out: "out = t @ out'"
  proof (cases p)
    case (Char c)
    with Cons.prems obtain out' where "sub w base_url ps st = (Inr out', st')"
      and "out = [c] @ out'"
      by (auto split: prod.splits sum.splits)
    moreover have "piece_rewritten w base_url p st [c] st"
      by (simp add: Char piece_rewritten_def)
    ultimately show ?thesis
      using that by blast
  next
    case (Match inner)
    with Cons.prems obtain t st1 out' where call: "replace_url w base_url inner st = (Inr t, st1)"
      and "sub w base_url ps st1 = (Inr out', st')" and "out = t @ out'"
      by (auto split: prod.splits sum.splits)
    moreover from call have "piece_rewritten w base_url p st t st1"
      unfolding Match by (rule replace_url_piece)
    ultimately show ?thesis
      using that by blast
  qed
  from Cons.IH [OF rest] obtain outs sts
    where len: "length outs = length ps" "length sts = length ps"
      and out': "out' = concat outs" and st': "st' = last (st1 # sts)"
      and each: "\<forall>i < length ps.
        piece_rewritten w base_url (ps ! i) ((st1 # sts) ! i) (outs ! i) (sts ! i)"
    by blast
  note all = pieces_step [OF first len each]
  show ?case
  proof (intro exI conjI)
    show "length (t # outs) = length (p # ps)" "length (st1 # sts) = length (p # ps)"
      using len by simp_all
    show "out = concat (t # outs)"
      using out out' by simp
    show "st' = last (st # st1 # sts)"
      using st' by simp
    show "\<forall>i < length (p # ps).
        piece_rewritten w base_url ((p # ps) ! i) ((st # st1 # sts) ! i) ((t # outs) ! i)
          ((st1 # sts) ! i)"
      by (rule all)
  qed
qed

lemma sub_unchanged:
  "\<forall>inner. Match inner \<in> set ps \<longrightarrow> \<not> remote inner \<Longrightarrow>
   sub w base_url ps st = (Inr (concat (map piece_text ps)), st)"
proof (induction ps)
  case Nil
  then show ?case by simp
next
  case (Cons p ps)
  then show ?case
    by (cases p) (simp_all add: replace_url_def remote_def)
qed

text \<open>
  C4.  The pieces of a style text are its matches of the pattern and the characters
  between them, and make up the whole text; the matches are found from left to right,
  each with the shortest inner value, and a text in which the pattern matches nowhere is
  all characters.  When the style rewriter returns, the pieces are rewritten in that
  order: a match whose inner value starts with \<open>http://\<close>, \<open>https://\<close> or \<open>//\<close> becomes
  \<open>url("\<close>, what \<open>download_and_replace_asset\<close> returns for the inner value, \<open>")\<close>; every
  other match and every character outside the matches stands as it was, and the state
  changes only in those calls.  A style text without such a match comes back as it is.
\<close>

theorem style_rewrite_selective:
  assumes "process_style_attribute w style base_url st = (Inr out, st')"
  shows "concat (map piece_text (finditer style)) = style
       \<and> (\<forall>pre inner rest.
             style = pre @ url_open @ inner @ url_close @ rest
             \<and> (\<forall>k < length pre. \<not> match_starts (drop k style)) \<and> lazy_inner inner \<longrightarrow>
             finditer style = map Char pre @ Match inner # finditer rest)
       \<and> ((\<forall>k < length style. \<not> match_starts (drop k style)) \<longrightarrow>
             finditer style = map Char style)
       \<and> style_rewritten w base_url style st out st'
       \<and> ((\<forall>inner. Match inner \<in> set (finditer style) \<longrightarrow> \<not> remote inner) \<longrightarrow>
            out = style \<and> st' = st)"
proof (intro conjI impI allI)
  show "concat (map piece_text (finditer style)) = style"
    by (rule finditer_text)
  show "finditer style = map Char pre @ Match inner # finditer rest"
    if "style = pre @ url_open @ inner @ url_close @ rest
      \<and> (\<forall>k < length pre. \<not> match_starts (drop k style)) \<and> lazy_inner inner"
    for pre inner rest
    using that by (intro finditer_leftmost_lazy) blast+
  show "finditer style = map Char style"
    if "\<forall>k < length style. \<not> match_starts (drop k style)"
    using that by (rule finditer_no_match)
  from assms show "style_rewritten w base_url style st out st'"
    unfolding process_style_attribute_def style_rewritten_def by (rule sub_pieces)
  show "out = style" and "st' = st"
    if "\<forall>inner. Match inner \<in> set (finditer style) \<longrightarrow> \<not> remote inner"
    using sub_unchanged [OF that, of w base_url st] assms
    by (simp_all add: process_style_attribute_def finditer_text)
qed

subsection \<open>The style texts of the specification\<close>

lemma unquote_x_com: "unquote (str ''https://x.com/a.png'') = str ''https://x.com/a.png''"
  by (simp add: unquote_eval)

lemma urljoin_x_com:
  "urljoin lib0 (str ''http://h/p'') (str ''https://x.com/a.png'')
   = Inr (str ''https://x.com/a.png'')"
  by (simp add: url_eval)

lemma urlsplit_x_com:
  "urlsplit lib0 (str ''https://x.com/a.png'') []
   = Inr \<lparr>scheme = str ''https'', netloc = str ''x.com'', path = str ''/a.png'',
           query = [], fragment = []\<rparr>"
  by (simp add: url_eval)

lemma full_x_com:
  "full_url_of (world_of net) page_url (str ''https://x.com/a.png'')
   = Inr (str ''https://x.com/a.png'')"
  by (simp add: full_url_of_def urllib_world_of page_url_def unquote_x_com urljoin_x_com)

lemma parsed_x_com:
  "parsed_of (world_of net) page_url (str ''https://x.com/a.png'')
   = Inr \<lparr>scheme = str ''https'', netloc = str ''x.com'', path = str ''/a.png'',
           query = [], fragment = []\<rparr>"
  by (simp add: parsed_of_def full_x_com urllib_world_of urlsplit_x_com)

lemma call_200_x_com:
  "\<exists>s1. download_and_replace_asset (world_of (answering 200)) (str ''https://x.com/a.png'')
       page_url st0
     = (Inr (str ''/mirror/assets/'' @ cache_key (str ''/a.png'') @ str ''.png''), s1)
     \<and> requests s1 = [str ''https://x.com/a.png'']"
proof -
  have locator: "str ''https://x.com/a.png'' \<noteq> []"
    "\<not> startswith (str ''https://x.com/a.png'') (str ''data:'')"
    by (simp_all add: startswith_def str_def)
  have name: "filename_of (path \<lparr>scheme = str ''https'', netloc = str ''x.com'',
      path = str ''/a.png'', query = [], fragment = []\<rparr>)
      = Inr (cache_key (str ''/a.png'') @ str ''.png'')"
    by (simp add: filename_of_a_png)
  show ?thesis
    by (simp add: download_unfold [OF locator full_x_com parsed_x_com name] st0_def
        requests_get_world_of answering_def local_reference_mirror)
qed

lemma sub_Chars:
  "sub w base_url (map Char xs @ ps) st =
     (case sub w base_url ps st of
        (Inl e, st1) \<Rightarrow> (Inl e, st1)
      | (Inr out, st1) \<Rightarrow> (Inr (xs @ out), st1))"
  by (induction xs) (auto split: prod.splits sum.splits)

theorem style_rewrite_selective_witness:
  "fst (process_style_attribute (world_of (answering 200))
     (str ''background:'' @ url_open @ str ''https://x.com/a.png'' @ url_close
        @ str '' no-repeat'') page_url st0)
     = Inr (str ''background:'' @ url_open
        @ (str ''/mirror/assets/'' @ cache_key (str ''/a.png'') @ str ''.png'') @ url_close
        @ str '' no-repeat'')
   \<and> requests (snd (process_style_attribute (world_of (answering 200))
        (str ''background:'' @ url_open @ str ''https://x.com/a.png'' @ url_close
           @ str '' no-repeat'') page_url st0))
     = [str ''https://x.com/a.png'']
   \<and> style_rewritten (world_of (answering 200)) page_url
        (str ''background:'' @ url_open @ str ''https://x.com/a.png'' @ url_close
           @ str '' no-repeat'') st0
        (str ''background:'' @ url_open
           @ (str ''/mirror/assets/'' @ cache_key (str ''/a.png'') @ str ''.png'') @ url_close
           @ str '' no-repeat'')
        (snd (process_style_attribute (world_of (answering 200))
           (str ''background:'' @ url_open @ str ''https://x.com/a.png'' @ url_close
              @ str '' no-repeat'') page_url st0))
   \<and> process_style_attribute (world_of (answering 200))
        (str ''background:'' @ url_open @ str ''/local.png'' @ url_close @ str '' no-repeat'')
        page_url st0
     = (Inr (str ''background:'' @ url_open @ str ''/local.png'' @ url_close
          @ str '' no-repeat''), st0)
   \<and> process_style_attribute (world_of (answering 200))
        (str ''background:url(https://x.com/a.png)'') page_url st0
     = (Inr (str ''background:url(https://x.com/a.png)''), st0)
   \<and> process_style_attribute (world_of (answering 200))
        (str ''background:url('' @ [39] @ str ''https://x.com/a.png'' @ [39] @ str '')'')
        page_url st0
     = (Inr (str ''background:url('' @ [39] @ str ''https://x.com/a.png'' @ [39] @ str '')''),
        st0)"
proof -
  let ?w = "world_of (answering 200)"
  let ?remote = "str ''background:'' @ url_open @ str ''https://x.com/a.png'' @ url_close
    @ str '' no-repeat''"
  let ?out = "str ''background:'' @ url_open
    @ (str ''/mirror/assets/'' @ cache_key (str ''/a.png'') @ str ''.png'') @ url_close
    @ str '' no-repeat''"
  let ?local = "str ''background:'' @ url_open @ str ''/local.png'' @ url_close
    @ str '' no-repeat''"
  let ?unquoted = "str ''background:url(https://x.com/a.png)''"
  let ?single = "str ''background:url('' @ [39] @ str ''https://x.com/a.png'' @ [39] @ str '')''"
  obtain s1 where fetched: "download_and_replace_asset ?w (str ''https://x.com/a.png'')
      page_url st0
      = (Inr (str ''/mirror/assets/'' @ cache_key (str ''/a.png'') @ str ''.png''), s1)"
    and sent: "requests s1 = [str ''https://x.com/a.png'']"
    using call_200_x_com by blast
  have pieces: "finditer ?remote
      = map Char (str ''background:'') @ [Match (str ''https://x.com/a.png'')]
        @ map Char (str '' no-repeat'')"
    by (simp add: str_def url_open_def url_close_def startswith_def)
  have prefix: "startswith (str ''https://x.com/a.png'') (str ''https://'')"
    by (simp add: startswith_def str_def)
  have tail: "sub ?w page_url (map Char (str '' no-repeat'')) s1 = (Inr (str '' no-repeat''), s1)"
    using sub_Chars [of ?w page_url "str '' no-repeat''" "[]" s1] by simp
  have remote: "process_style_attribute ?w ?remote page_url st0 = (Inr ?out, s1)"
    by (simp add: process_style_attribute_def pieces sub_Chars replace_url_def prefix fetched
        tail)
  have no_match: "\<forall>inner. Match inner \<in> set (finditer ?unquoted) \<longrightarrow> \<not> remote inner"
    "\<forall>inner. Match inner \<in> set (finditer ?single) \<longrightarrow> \<not> remote inner"
    by (simp_all add: str_def url_open_def url_close_def startswith_def)
  have local: "\<forall>inner. Match inner \<in> set (finditer ?local) \<longrightarrow> \<not> remote inner"
    by (simp add: str_def url_open_def url_close_def startswith_def remote_def)
  have unchanged: "process_style_attribute ?w ?local page_url st0 = (Inr ?local, st0)"
    "process_style_attribute ?w ?unquoted page_url st0 = (Inr ?unquoted, st0)"
    "process_style_attribute ?w ?single page_url st0 = (Inr ?single, st0)"
    unfolding process_style_attribute_def
    using sub_unchanged [OF local, of ?w page_url st0]
      sub_unchanged [OF no_match(1), of ?w page_url st0]
      sub_unchanged [OF no_match(2), of ?w page_url st0]
    by (simp_all only: finditer_text)
  note rewritten = style_rewrite_selective [OF remote, THEN conjunct2, THEN conjunct2,
      THEN conjunct2, THEN conjunct1]
  from rewritten remote sent unchanged show ?thesis
    by simp
qed

section \<open>The tree rewriter\<close>

subsection \<open>The names the program tests for\<close>

lemma str_eq_iff: "str a = str b \<longleftrightarrow> a = b"
proof -
  have "inj (of_char :: char \<Rightarrow> nat)"
    by (simp add: inj_def)
  then show ?thesis
    by (simp add: str_def inj_map_eq_map)
qed

lemma fixed_names:
  "\<not> endswith (lower (str ''style'')) (str ''url'')"
  "\<not> endswith (lower (str ''style'')) (str ''urls'')"
  "\<not> endswith (lower (str ''integrity'')) (str ''url'')"
  "\<not> endswith (lower (str ''integrity'')) (str ''urls'')"
  "\<not> endswith (lower (str ''crossorigin'')) (str ''url'')"
  "\<not> endswith (lower (str ''crossorigin'')) (str ''urls'')"
  "\<not> endswith (lower (str ''src'')) (str ''url'')"
  "\<not> endswith (lower (str ''src'')) (str ''urls'')"
  "\<not> endswith (lower (str ''href'')) (str ''url'')"
  "\<not> endswith (lower (str ''href'')) (str ''urls'')"
  by (simp_all add: endswith_def lower_def lower_char_def str_def)



subsection \<open>What each step of the loop body leaves alone\<close>

lemma delete_sri_frame:
  assumes "attr \<noteq> str ''integrity''" and "attr \<noteq> str ''crossorigin''"
  shows "map_of (delete_sri a) attr = map_of a attr"
  using assms by (simp add: delete_sri_def delete_conv')


lemma rewrite_style_frame:
  assumes "rewrite_style w url a st = (Inr a1, st1)" and "attr \<noteq> str ''style''"
  shows "map_of a1 attr = map_of a attr"
  using assms
  by (auto simp: rewrite_style_def update_conv' split: option.splits prod.splits sum.splits)


lemma rewrite_items_frame:
  "rewrite_items w url items acc st = (Inr a', st') \<Longrightarrow>
   attr \<notin> fst ` set items
     \<or> (\<not> endswith (lower attr) (str ''url'') \<and> \<not> endswith (lower attr) (str ''urls'')) \<Longrightarrow>
   map_of a' attr = map_of acc attr"
proof (induction items arbitrary: acc st)
  case Nil
  then show ?case by simp
next
  case (Cons item items)
  obtain k v where item: "item = (k, v)"
    by (cases item)
  from Cons.prems(2) have rest: "attr \<notin> fst ` set items
     \<or> (\<not> endswith (lower attr) (str ''url'') \<and> \<not> endswith (lower attr) (str ''urls''))"
    by auto
  from Cons.prems(2) item have other: "attr \<noteq> k"
    if "endswith (lower k) (str ''url'') \<or> endswith (lower k) (str ''urls'')"
    using that by auto
  consider (url) "endswith (lower k) (str ''url'')"
    | (urls) "\<not> endswith (lower k) (str ''url'')" "endswith (lower k) (str ''urls'')"
    | (neither) "\<not> endswith (lower k) (str ''url'')" "\<not> endswith (lower k) (str ''urls'')"
    by blast
  then show ?case
  proof cases
    case url
    with Cons.prems(1) item obtain ref st1
      where "rewrite_items w url items (AList.update k ref acc) st1 = (Inr a', st')"
      by (auto split: prod.splits sum.splits)
    from Cons.IH [OF this rest] other url show ?thesis
      by (simp add: update_conv')
  next
    case urls
    with Cons.prems(1) item obtain refs st1
      where "rewrite_items w url items (AList.update k (join (str '', '') refs) acc) st1
        = (Inr a', st')"
      by (auto split: prod.splits sum.splits)
    from Cons.IH [OF this rest] other urls show ?thesis
      by (simp add: update_conv')
  next
    case neither
    with Cons.prems(1) item have "rewrite_items w url items acc st = (Inr a', st')"
      by simp
    from Cons.IH [OF this rest] show ?thesis .
  qed
qed

lemma rewrite_src_href_frame:
  assumes "rewrite_src_href w url name a st = (Inr a', st')"
    and "\<not> (attr = str ''src'' \<and> name \<in> set [str ''img'', str ''script'', str ''source''])"
    and "\<not> (attr = str ''href'' \<and> name = str ''link'')"
  shows "map_of a' attr = map_of a attr"
proof (cases "name \<in> set [str ''img'', str ''script'', str ''source'']
    \<and> map_of a (str ''src'') \<noteq> None")
  case True
  from assms(1) obtain ref where "a' = AList.update (str ''src'') ref a"
    unfolding rewrite_src_href_def if_P [OF True]
    by (auto split: prod.splits sum.splits)
  moreover from True assms(2) have "attr \<noteq> str ''src''"
    by blast
  ultimately show ?thesis
    by (simp add: update_conv')
next
  case False
  note media = this
  show ?thesis
  proof (cases "name = str ''link'' \<and> map_of a (str ''href'') \<noteq> None")
    case True
    from assms(1) obtain ref where "a' = AList.update (str ''href'') ref a"
      unfolding rewrite_src_href_def if_not_P [OF media] if_P [OF True]
      by (auto split: prod.splits sum.splits)
    moreover from True assms(3) have "attr \<noteq> str ''href''"
      by blast
    ultimately show ?thesis
      by (simp add: update_conv')
  next
    case False
    from assms(1) have "a' = a"
      unfolding rewrite_src_href_def if_not_P [OF media] if_not_P [OF False]
      by simp
    then show ?thesis
      by simp
  qed
qed

lemma rewrite_tag_steps:
  assumes "rewrite_tag w url name a st = (Inr a', st')"
  obtains a1 st1 a2 st2
    where "rewrite_style w url (delete_sri a) st = (Inr a1, st1)"
      and "rewrite_items w url a1 a1 st1 = (Inr a2, st2)"
      and "rewrite_src_href w url name a2 st2 = (Inr a', st')"
  using assms by (auto simp: rewrite_tag_def split: prod.splits sum.splits)

lemma rewrite_tag_frame:
  assumes "rewrite_tag w url name a st = (Inr a', st')" and "kept_attribute name attr"
  shows "map_of a' attr = map_of a attr"
proof -
  from assms(1) obtain a1 st1 a2 st2
    where style: "rewrite_style w url (delete_sri a) st = (Inr a1, st1)"
      and items: "rewrite_items w url a1 a1 st1 = (Inr a2, st2)"
      and src_href: "rewrite_src_href w url name a2 st2 = (Inr a', st')"
    by (rule rewrite_tag_steps)
  from assms(2) have "map_of a' attr = map_of a2 attr"
    by (intro rewrite_src_href_frame [OF src_href]) (simp_all add: kept_attribute_def)
  also from assms(2) have "\<dots> = map_of a1 attr"
    by (intro rewrite_items_frame [OF items]) (simp add: kept_attribute_def)
  also from assms(2) have "\<dots> = map_of (delete_sri a) attr"
    by (intro rewrite_style_frame [OF style]) (simp add: kept_attribute_def)
  also from assms(2) have "\<dots> = map_of a attr"
    by (intro delete_sri_frame) (simp_all add: kept_attribute_def)
  finally show ?thesis .
qed

subsection \<open>From one tag to the tree\<close>

lemma rewrite_nodes_find_all:
  assumes step: "\<And>name a st a' st'.
      rewrite_tag w url name a st = (Inr a', st') \<Longrightarrow> R (name, a) (name, a')"
  shows "rewrite_nodes w url ns st = (Inr ns', st') \<Longrightarrow>
      list_all2 R (find_all ns) (find_all ns')"
proof (induction ns arbitrary: st ns' st' rule: find_all.induct)
  case 1
  then show ?case by simp
next
  case (2 s ns)
  from "2.prems" obtain ns'' where "rewrite_nodes w url ns st = (Inr ns'', st')"
    and "ns' = NavigableString s # ns''"
    by (auto split: prod.splits sum.splits)
  with "2.IH" show ?case
    by simp
next
  case (3 name a contents ns)
  from "3.prems" obtain a' contents' ns'' st1 st2
    where tag: "rewrite_tag w url name a st = (Inr a', st1)"
      and inner: "rewrite_nodes w url contents st1 = (Inr contents', st2)"
      and rest: "rewrite_nodes w url ns st2 = (Inr ns'', st')"
      and ns': "ns' = Tag name a' contents' # ns''"
    by (auto split: prod.splits sum.splits)
  from step [OF tag] "3.IH"(1) [OF inner] "3.IH"(2) [OF rest] show ?case
    unfolding ns' by (simp add: list_all2_appendI)
qed

subsection \<open>The attributes no rule is about\<close>

text \<open>
  C10.  When the tree rewriter returns, the new tree has the tags of the old one, in
  the same order and with the same names, and on every tag every attribute stands as
  it did (same value, or absent as before) whose name does not end, case-insensitively,
  in \<open>url\<close> or \<open>urls\<close>, is not \<open>style\<close>, \<open>integrity\<close> or \<open>crossorigin\<close>, and is not \<open>src\<close> on
  an \<open>img\<close>, \<open>script\<close> or \<open>source\<close> tag or \<open>href\<close> on a \<open>link\<close> tag.
\<close>

theorem other_attributes_kept:
  assumes "rewrite_nodes w url soup st = (Inr soup', st')"
  shows "list_all2
           (\<lambda>tag tag'. fst tag' = fst tag
              \<and> (\<forall>attr. kept_attribute (fst tag) attr \<longrightarrow>
                    map_of (snd tag') attr = map_of (snd tag) attr))
           (find_all soup) (find_all soup')"
proof (rule rewrite_nodes_find_all [OF _ assms])
  fix name a st a' st'
  assume "rewrite_tag w url name a st = (Inr a', st')"
  then have "map_of a' attr = map_of a attr" if "kept_attribute name attr" for attr
    using that by (rule rewrite_tag_frame)
  then show "fst (name, a') = fst (name, a)
      \<and> (\<forall>attr. kept_attribute (fst (name, a)) attr \<longrightarrow>
            map_of (snd (name, a')) attr = map_of (snd (name, a)) attr)"
    by simp
qed

theorem other_attributes_kept_witness:
  "fst (rewrite_nodes (world_of (answering 200)) page_url
     [Tag (str ''a'') [(str ''href'', str ''http://h/q'')]
        [Tag (str ''img'') [(str ''src'', str ''a.png?v=1''), (str ''alt'', str ''pic'')] []]]
     st0)
     = Inr [Tag (str ''a'') [(str ''href'', str ''http://h/q'')]
        [Tag (str ''img'')
           [(str ''src'', str ''/mirror/assets/'' @ cache_key (str ''/a.png'') @ str ''.png?v=1''),
            (str ''alt'', str ''pic'')] []]]
   \<and> kept_attribute (str ''a'') (str ''href'')
   \<and> kept_attribute (str ''img'') (str ''alt'')
   \<and> \<not> kept_attribute (str ''img'') (str ''src'')
   \<and> list_all2
        (\<lambda>tag tag'. fst tag' = fst tag
           \<and> (\<forall>attr. kept_attribute (fst tag) attr \<longrightarrow>
                 map_of (snd tag') attr = map_of (snd tag) attr))
        (find_all
           [Tag (str ''a'') [(str ''href'', str ''http://h/q'')]
              [Tag (str ''img'') [(str ''src'', str ''a.png?v=1''), (str ''alt'', str ''pic'')]
                 []]])
        (find_all
           [Tag (str ''a'') [(str ''href'', str ''http://h/q'')]
              [Tag (str ''img'')
                 [(str ''src'',
                   str ''/mirror/assets/'' @ cache_key (str ''/a.png'') @ str ''.png?v=1''),
                  (str ''alt'', str ''pic'')] []]])"
proof -
  let ?w = "world_of (answering 200)"
  let ?soup = "[Tag (str ''a'') [(str ''href'', str ''http://h/q'')]
     [Tag (str ''img'') [(str ''src'', str ''a.png?v=1''), (str ''alt'', str ''pic'')] []]]"
  let ?soup' = "[Tag (str ''a'') [(str ''href'', str ''http://h/q'')]
     [Tag (str ''img'')
        [(str ''src'', str ''/mirror/assets/'' @ cache_key (str ''/a.png'') @ str ''.png?v=1''),
         (str ''alt'', str ''pic'')] []]]"
  have alt: "\<not> endswith (lower (str ''alt'')) (str ''url'')"
    "\<not> endswith (lower (str ''alt'')) (str ''urls'')"
    by (simp_all add: endswith_def lower_def lower_char_def str_def)
  have anchor: "rewrite_tag ?w page_url (str ''a'') [(str ''href'', str ''http://h/q'')] st0
      = (Inr [(str ''href'', str ''http://h/q'')], st0)"
    by (simp add: rewrite_tag_def delete_sri_def rewrite_style_def rewrite_src_href_def
        str_eq_iff fixed_names)
  have image: "fst (rewrite_tag ?w page_url (str ''img'')
      [(str ''src'', str ''a.png?v=1''), (str ''alt'', str ''pic'')] st0)
      = Inr [(str ''src'', str ''/mirror/assets/'' @ cache_key (str ''/a.png'') @ str ''.png?v=1''),
         (str ''alt'', str ''pic'')]"
    by (simp add: rewrite_tag_def delete_sri_def rewrite_style_def rewrite_src_href_def
        str_eq_iff fixed_names alt call_200_v1)
       (simp add: str_def)
  then obtain s1 where "rewrite_tag ?w page_url (str ''img'')
      [(str ''src'', str ''a.png?v=1''), (str ''alt'', str ''pic'')] st0
      = (Inr [(str ''src'', str ''/mirror/assets/'' @ cache_key (str ''/a.png'') @ str ''.png?v=1''),
         (str ''alt'', str ''pic'')], s1)"
    by (metis prod.collapse)
  then have result: "fst (rewrite_nodes ?w page_url ?soup st0) = Inr ?soup'"
    by (simp add: anchor)
  have kept: "kept_attribute (str ''a'') (str ''href'')" "kept_attribute (str ''img'') (str ''alt'')"
    "\<not> kept_attribute (str ''img'') (str ''src'')"
    by (simp_all add: kept_attribute_def fixed_names alt str_eq_iff)
  from result have "rewrite_nodes ?w page_url ?soup st0
      = (Inr ?soup', snd (rewrite_nodes ?w page_url ?soup st0))"
    by (simp add: prod_eq_iff)
  from other_attributes_kept [OF this] result kept show ?thesis
    by simp
qed

subsection \<open>Calls on locators whose file is there\<close>




subsection \<open>\<open>src\<close> and \<open>href\<close>\<close>




subsection \<open>The names that end in \<open>url\<close> and in \<open>urls\<close>\<close>






section \<open>The output file\<close>

subsection \<open>Nothing before the end touches the output file\<close>

lemma download_index_html:
  assumes "download_and_replace_asset w asset_url base_url st = (r, st')"
  shows "index_html st' = index_html st"
proof -
  consider (resolved) full_url parsed_url filename
    where "asset_url \<noteq> []" "\<not> startswith asset_url (str ''data:'')"
      "full_url_of w base_url asset_url = Inr full_url"
      "parsed_of w base_url asset_url = Inr parsed_url"
      "filename_of (path parsed_url) = Inr filename"
    | (unresolved) "snd (download_and_replace_asset w asset_url base_url st) = st"
    using download_unresolved [of asset_url w base_url st] by blast
  then show ?thesis
  proof cases
    case resolved
    note unfold = download_unfold [OF resolved, of st, unfolded assms]
    show ?thesis
    proof (cases "assets st filename = None")
      case False
      with unfold show ?thesis by simp
    next
      case True
      show ?thesis
      proof (cases "requests_get w (length (requests st)) full_url")
        case Raises
        with unfold True show ?thesis by auto
      next
        case (Returns resp)
        with unfold True show ?thesis
          by (cases "status_code resp = 200") auto
      qed
    qed
  next
    case unresolved
    with assms show ?thesis by simp
  qed
qed

lemma replace_url_index_html:
  assumes "replace_url w base_url g st = (r, st')"
  shows "index_html st' = index_html st"
  using assms
  by (auto simp: replace_url_def split: if_splits prod.splits sum.splits
      dest: download_index_html)

lemma sub_index_html:
  "sub w base_url ps st = (r, st') \<Longrightarrow> index_html st' = index_html st"
proof (induction ps arbitrary: st r st')
  case Nil
  then show ?case by simp
next
  case (Cons p ps)
  show ?case
  proof (cases p)
    case (Char c)
    with Cons.prems Cons.IH show ?thesis
      by (auto split: prod.splits sum.splits)
  next
    case (Match g)
    with Cons.prems show ?thesis
      by (auto split: prod.splits sum.splits dest!: replace_url_index_html Cons.IH)
  qed
qed

lemma rewrite_style_index_html:
  assumes "rewrite_style w url a st = (r, st')"
  shows "index_html st' = index_html st"
  using assms
  by (auto simp: rewrite_style_def process_style_attribute_def
      split: option.splits prod.splits sum.splits dest: sub_index_html)

lemma new_values_index_html:
  "new_values w url vs st = (r, st') \<Longrightarrow> index_html st' = index_html st"
proof (induction vs arbitrary: st r st')
  case Nil
  then show ?case by simp
next
  case (Cons v vs)
  then show ?case
    by (auto split: prod.splits sum.splits dest!: download_index_html Cons.IH)
qed

lemma rewrite_items_index_html:
  "rewrite_items w url items a st = (r, st') \<Longrightarrow> index_html st' = index_html st"
proof (induction items arbitrary: a st r st')
  case Nil
  then show ?case by simp
next
  case (Cons item items)
  obtain attr val where item: "item = (attr, val)"
    by (cases item)
  from Cons.prems show ?case
    unfolding item
    by (auto split: if_splits prod.splits sum.splits
        dest!: download_index_html new_values_index_html Cons.IH)
qed

lemma rewrite_src_href_index_html:
  assumes "rewrite_src_href w url name a st = (r, st')"
  shows "index_html st' = index_html st"
  using assms
  by (auto simp: rewrite_src_href_def split: if_splits prod.splits sum.splits
      dest: download_index_html)

lemma rewrite_tag_index_html:
  assumes "rewrite_tag w url name a st = (r, st')"
  shows "index_html st' = index_html st"
  using assms
  by (auto simp: rewrite_tag_def split: prod.splits sum.splits
      dest!: rewrite_style_index_html rewrite_items_index_html rewrite_src_href_index_html)

lemma rewrite_node_index_html:
  "rewrite_node w url n st = (r, st') \<Longrightarrow> index_html st' = index_html st"
  "rewrite_nodes w url ns st = (rs, st') \<Longrightarrow> index_html st' = index_html st"
proof (induction w url n st and w url ns st arbitrary: r st' and rs st'
    rule: rewrite_node_rewrite_nodes.induct)
  case (1 w url s st)
  then show ?case by simp
next
  case (2 w url name a contents st)
  obtain ra st1 where tag: "rewrite_tag w url name a st = (ra, st1)"
    by (cases "rewrite_tag w url name a st")
  then have kept: "index_html st1 = index_html st"
    by (rule rewrite_tag_index_html)
  show ?case
  proof (cases ra)
    case (Inl e)
    with "2.prems" tag kept show ?thesis
      by simp
  next
    case (Inr a')
    obtain rc st2 where nodes: "rewrite_nodes w url contents st1 = (rc, st2)"
      by (cases "rewrite_nodes w url contents st1")
    from "2.IH" tag Inr nodes have "index_html st2 = index_html st1"
      by auto
    with "2.prems" tag Inr nodes kept show ?thesis
      by (auto split: sum.splits)
  qed
next
  case (3 w url st)
  then show ?case by simp
next
  case (4 w url n ns st)
  obtain rn st1 where node: "rewrite_node w url n st = (rn, st1)"
    by (cases "rewrite_node w url n st")
  with "4.IH"(1) have kept: "index_html st1 = index_html st"
    by auto
  show ?case
  proof (cases rn)
    case (Inl e)
    with "4.prems" node kept show ?thesis
      by simp
  next
    case (Inr n')
    obtain rs' st2 where nodes: "rewrite_nodes w url ns st1 = (rs', st2)"
      by (cases "rewrite_nodes w url ns st1")
    from "4.IH"(2) node Inr nodes have "index_html st2 = index_html st1"
      by auto
    with "4.prems" node Inr nodes kept show ?thesis
      by (auto split: sum.splits)
  qed
qed

subsection \<open>The run\<close>

text \<open>
  C9, as the code has it.  When the request for the page raises, the run ends there with
  nothing but the request done.  Otherwise the tree is rewritten; the output file is as
  it was before the run until that is over, and stays so when the rewriting raises.
  Only then is the file opened, which creates or empties it, and the text written: when
  the text holds a character that ISO-8859-1 lacks, the write raises and the run fails
  with the output file there and empty; else the file holds the text.
\<close>

theorem output_file_written_last:
  assumes "download_page w url st = (res, st')"
  shows "case requests_get w (length (requests st)) url of
           Raises \<Rightarrow> res = Inl RequestException \<and> st' = st\<lparr>requests := requests st @ [url]\<rparr>
         | Returns r \<Rightarrow>
             (case rewrite_nodes w url
                     (snd (decompose (BeautifulSoup w
                        (filter (\<lambda>c. \<not> surrogate c) (response_text r)))))
                     (st\<lparr>requests := requests st @ [url]\<rparr>) of
                (Inl e, st2) \<Rightarrow> res = Inl e \<and> st' = st2 \<and> index_html st' = index_html st
              | (Inr soup, st2) \<Rightarrow>
                  index_html st2 = index_html st
                  \<and> (if list_ex (\<lambda>c. 256 \<le> c) (soup_str w soup)
                     then res = Inl (UnicodeEncodeError Latin1)
                          \<and> st' = st2\<lparr>index_html := Some []\<rparr>
                     else res = Inr () \<and> st' = st2\<lparr>index_html := Some (soup_str w soup)\<rparr>))"
proof (cases "requests_get w (length (requests st)) url")
  case Raises
  with assms show ?thesis
    by (simp add: download_page_def get_def)
next
  case (Returns r)
  obtain rr st2 where nodes: "rewrite_nodes w url
      (snd (decompose (BeautifulSoup w (filter (\<lambda>c. \<not> surrogate c) (response_text r)))))
      (st\<lparr>requests := requests st @ [url]\<rparr>) = (rr, st2)"
    by (cases "rewrite_nodes w url
      (snd (decompose (BeautifulSoup w (filter (\<lambda>c. \<not> surrogate c) (response_text r)))))
      (st\<lparr>requests := requests st @ [url]\<rparr>)")
  from rewrite_node_index_html(2) [OF nodes] have kept: "index_html st2 = index_html st"
    by simp
  show ?thesis
  proof (cases rr)
    case (Inl e)
    with assms Returns nodes kept show ?thesis
      by (simp add: download_page_def get_def Let_def)
  next
    case (Inr soup)
    with assms Returns nodes kept show ?thesis
      by (auto simp: download_page_def get_def Let_def encode_latin1_def)
  qed
qed

theorem output_file_written_last_witness:
  "download_page (world_of (serving (str ''hello''))) page_url st0
     = (Inr (), st0\<lparr>requests := [page_url], index_html := Some (str ''hello'')\<rparr>)
   \<and> download_page (world_of unreachable) page_url st0
     = (Inl RequestException, st0\<lparr>requests := [page_url]\<rparr>)"
proof -
  have sent: "requests st0 = []"
    by (simp add: st0_def)
  have page: "rewrite_nodes (world_of (serving (str ''hello''))) page_url
      (snd (decompose (BeautifulSoup (world_of (serving (str ''hello'')))
         (filter (\<lambda>c. \<not> surrogate c) (str ''hello'')))))
      (st0\<lparr>requests := [page_url]\<rparr>)
      = (Inr [NavigableString (str ''hello'')], st0\<lparr>requests := [page_url]\<rparr>)"
    by (simp add: world_of_def str_def surrogate_def)
  have shown: "soup_str (world_of (serving (str ''hello''))) [NavigableString (str ''hello'')]
      = str ''hello''"
    by (simp add: world_of_def)
  have latin: "\<not> list_ex (\<lambda>c. 256 \<le> c) (str ''hello'')"
    by (simp add: str_def)
  have "download_page (world_of (serving (str ''hello''))) page_url st0
     = (Inr (), st0\<lparr>requests := [page_url], index_html := Some (str ''hello'')\<rparr>)"
    using output_file_written_last [OF surjective_pairing,
        of "world_of (serving (str ''hello''))" page_url st0]
    by (simp add: requests_get_world_of serving_def sent page shown latin prod_eq_iff)
  moreover have "download_page (world_of unreachable) page_url st0
     = (Inl RequestException, st0\<lparr>requests := [page_url]\<rparr>)"
    using output_file_written_last [OF surjective_pairing, of "world_of unreachable" page_url st0]
    by (simp add: requests_get_world_of unreachable_def sent prod_eq_iff)
  ultimately show ?thesis
    by simp
qed

text \<open>
  A page whose text is the one character U+4E2D: the run fails in the write, after the
  file was opened, and leaves an empty output file where there was none.
\<close>

theorem failed_write_leaves_empty_file:
  "index_html st0 = None
   \<and> download_page (world_of (serving [0x4E2D])) page_url st0
     = (Inl (UnicodeEncodeError Latin1), st0\<lparr>requests := [page_url], index_html := Some []\<rparr>)"
  by (simp add: download_page_def get_def requests_get_world_of serving_def st0_def
      world_of_def surrogate_def encode_latin1_def)

end
